theory Spec2Isabelle
  imports Main "HOL-Library.Log_Nat"
begin

section \<open>GPX splitter: \<^verbatim>\<open>split_gpx.py\<close>\<close>

text \<open>
  A shallow embedding of \<^verbatim>\<open>GPX-Splitter/split_gpx.py\<close>. Python's \<^verbatim>\<open>str\<close> is a
  sequence of code points; here a \<open>char\<close> stands for one code point, so the model covers
  text whose code points are below 256. The regular expression, \<^verbatim>\<open>replace\<close> and
  \<^verbatim>\<open>strip\<close> of the script treat every code point outside ASCII alike.
\<close>

subsection \<open>Strings\<close>

text \<open>\<^verbatim>\<open>s.strip(chars)\<close>: drop leading and trailing characters that satisfy \<open>P\<close>.\<close>

definition strip_where :: "(char \<Rightarrow> bool) \<Rightarrow> string \<Rightarrow> string" where
  "strip_where P s = rev (dropWhile P (rev (dropWhile P s)))"

text \<open>
  \<^verbatim>\<open>str.isspace\<close> on one code point below 256: TAB, LF, VT, FF, CR, the separators
  0x1C..0x1F, space, NEL (0x85) and the no-break space (0xA0).
\<close>

definition is_space :: "char \<Rightarrow> bool" where
  "is_space c = ((of_char c :: nat) \<in> {9, 10, 11, 12, 13, 28, 29, 30, 31, 32, 133, 160})"

text \<open>\<^verbatim>\<open>s.strip()\<close> with no argument strips white space.\<close>

definition strip :: "string \<Rightarrow> string" where
  "strip s = strip_where is_space s"

text \<open>\<^verbatim>\<open>s.replace(' ', '_')\<close> for one-character patterns.\<close>

definition replace_char :: "char \<Rightarrow> char \<Rightarrow> string \<Rightarrow> string" where
  "replace_char a b s = map (\<lambda>c. if c = a then b else c) s"

subsection \<open>\<^verbatim>\<open>sanitize_filename\<close>\<close>

text \<open>The character class \<^verbatim>\<open>[A-Za-z0-9 _-]\<close> whose complement the script replaces.\<close>

definition is_alnum :: "char \<Rightarrow> bool" where
  "is_alnum c =
     (c \<in> set ''ABCDEFGHIJKLMNOPQRSTUVWXYZabcdefghijklmnopqrstuvwxyz0123456789'')"

definition allowed :: "char \<Rightarrow> bool" where
  "allowed c = (is_alnum c \<or> c = CHR '' '' \<or> c = CHR ''_'' \<or> c = CHR ''-'')"

text \<open>\<^verbatim>\<open>re.sub(r'[^A-Za-z0-9 _-]', '_', name)\<close>\<close>

definition re_sub_disallowed :: "string \<Rightarrow> string" where
  "re_sub_disallowed name = map (\<lambda>c. if allowed c then c else CHR ''_'') name"

text \<open>
  \<^verbatim>\<open>
  def sanitize_filename(name: str) -> str:
      if not name:
          return "deelroute"
      sanitized = re.sub(r'[^A-Za-z0-9 _-]', '_', name)
      sanitized = sanitized.replace(' ', '_').strip('_')
      return sanitized or "deelroute"
  \<close>
\<close>

definition sanitize_filename :: "string \<Rightarrow> string" where
  "sanitize_filename name =
     (if name = [] then ''deelroute''
      else
        let sanitized = re_sub_disallowed name;
            sanitized = strip_where (\<lambda>c. c = CHR ''_'') (replace_char CHR '' '' CHR ''_'' sanitized)
        in if sanitized = [] then ''deelroute'' else sanitized)"

subsection \<open>Element trees\<close>

text \<open>
  An \<^verbatim>\<open>xml.etree.ElementTree.Element\<close>: tag, attribute dictionary (in insertion
  order), text, tail and the list of children (the selectors \<open>elem_text\<close> and
  \<open>elem_tail\<close> are the attributes \<^verbatim>\<open>.text\<close> and \<^verbatim>\<open>.tail\<close>). A namespaced tag is the string
  \<^verbatim>\<open>{uri}local\<close>, as ElementTree stores it.
\<close>

datatype elem =
  Elem (tag: string) (attrib: "(string \<times> string) list") (elem_text: "string option")
       (elem_tail: "string option") (children: "elem list")

definition GPX_NS :: string where
  "GPX_NS = ''http://www.topografix.com/GPX/1/1''"

definition GARMIN_GPXX_NS :: string where
  "GARMIN_GPXX_NS = ''http://www.garmin.com/xmlschemas/GpxExtensions/v3''"

text \<open>\<^verbatim>\<open>f'{{{ns}}}local'\<close>, also what a prefixed path step resolves to.\<close>

definition qname :: "string \<Rightarrow> string \<Rightarrow> string" where
  "qname ns local = ''{'' @ ns @ ''}'' @ local"

text \<open>\<^verbatim>\<open>ET.Element(tag)\<close> and \<^verbatim>\<open>ET.Element(tag, attrib=...)\<close>\<close>

definition Element :: "string \<Rightarrow> elem" where
  "Element tg = Elem tg [] None None []"

definition Element_attrib :: "string \<Rightarrow> (string \<times> string) list \<Rightarrow> elem" where
  "Element_attrib tg attrs = Elem tg attrs None None []"

definition set_text :: "string \<Rightarrow> elem \<Rightarrow> elem" where
  "set_text s e = Elem (tag e) (attrib e) (Some s) (elem_tail e) (children e)"

definition set_children :: "elem list \<Rightarrow> elem \<Rightarrow> elem" where
  "set_children cs e = Elem (tag e) (attrib e) (elem_text e) (elem_tail e) cs"

text \<open>\<^verbatim>\<open>parent.append(child)\<close> and \<^verbatim>\<open>parent.insert(0, child)\<close>\<close>

definition append_child :: "elem \<Rightarrow> elem \<Rightarrow> elem" where
  "append_child c e = set_children (children e @ [c]) e"

definition insert_first :: "elem \<Rightarrow> elem \<Rightarrow> elem" where
  "insert_first c e = set_children (c # children e) e"

text \<open>\<^verbatim>\<open>elem.get(key)\<close>: the attribute value, or \<^verbatim>\<open>None\<close>.\<close>

definition get_attr :: "string \<Rightarrow> elem \<Rightarrow> string option" where
  "get_attr k e = map_of (attrib e) k"

text \<open>
  \<^verbatim>\<open>elem.find(tag)\<close> with a one-step path: the first direct child with that tag.
  \<^verbatim>\<open>elem.findall(tag)\<close>: all of them, in document order.
\<close>

definition find_child :: "string \<Rightarrow> elem \<Rightarrow> elem option" where
  "find_child tg e = List.find (\<lambda>c. tag c = tg) (children e)"

definition findall_children :: "string \<Rightarrow> elem \<Rightarrow> elem list" where
  "findall_children tg e = filter (\<lambda>c. tag c = tg) (children e)"

text \<open>
  The object that \<^verbatim>\<open>find\<close> returns is the child itself, not a copy: an assignment
  to it changes the parent. In the model the changed child is written back in place of
  the first child with that tag.
\<close>

fun update_first :: "('a \<Rightarrow> bool) \<Rightarrow> ('a \<Rightarrow> 'a) \<Rightarrow> 'a list \<Rightarrow> 'a list" where
  "update_first P f [] = []"
| "update_first P f (x # xs) = (if P x then f x # xs else x # update_first P f xs)"

definition update_child :: "string \<Rightarrow> (elem \<Rightarrow> elem) \<Rightarrow> elem \<Rightarrow> elem" where
  "update_child tg f e = set_children (update_first (\<lambda>c. tag c = tg) f (children e)) e"

text \<open>
  \<^verbatim>\<open>elem.iter()\<close> without the element itself: all descendants in document order
  (an element before its own descendants, those before its later siblings). This is the
  order in which the path \<^verbatim>\<open>.//tag\<close> visits candidates.
\<close>

fun descendants :: "elem \<Rightarrow> elem list" where
  "descendants (Elem tg attrs tx ta cs) = concat (map (\<lambda>c. c # descendants c) cs)"

definition findall_desc :: "string \<Rightarrow> elem \<Rightarrow> elem list" where
  "findall_desc tg e = filter (\<lambda>c. tag c = tg) (descendants e)"

definition find_desc :: "string \<Rightarrow> elem \<Rightarrow> elem option" where
  "find_desc tg e = List.find (\<lambda>c. tag c = tg) (descendants e)"

subsection \<open>Track label and file name\<close>

text \<open>\<^verbatim>\<open>f"{idx}"\<close> for a non-negative integer.\<close>

fun decimal :: "nat \<Rightarrow> string" where
  "decimal n =
     (if n < 10 then [''0123456789'' ! n]
      else decimal (n div 10) @ [''0123456789'' ! (n mod 10)])"

text \<open>
  \<^verbatim>\<open>
  name_elem = track.find('gpx:name', ns)
  track_name = name_elem.text.strip() if (name_elem is not None and name_elem.text)
               else f"deelroute_{idx}"
  safe_name = sanitize_filename(track_name)
  ... f"{safe_name}.gpx"
  \<close>
\<close>

definition track_name :: "elem \<Rightarrow> nat \<Rightarrow> string" where
  "track_name track idx =
     (case find_child (qname GPX_NS ''name'') track of
        None \<Rightarrow> ''deelroute_'' @ decimal idx
      | Some name_elem \<Rightarrow>
          (case elem_text name_elem of
             None \<Rightarrow> ''deelroute_'' @ decimal idx
           | Some t \<Rightarrow> if t = [] then ''deelroute_'' @ decimal idx else strip t))"

definition safe_name :: "elem \<Rightarrow> nat \<Rightarrow> string" where
  "safe_name track idx = sanitize_filename (track_name track idx)"

definition track_filename :: "elem \<Rightarrow> nat \<Rightarrow> string" where
  "track_filename track idx = safe_name track idx @ ''.gpx''"

subsection \<open>Colour injection\<close>

text \<open>
  \<^verbatim>\<open>
  def add_standard_display_color(track_elem, hex_color):
      std_ext = track_elem.find('extensions')
      if std_ext is None:
          std_ext = ET.Element('extensions')
          track_elem.append(std_ext)
      disp = std_ext.find('display_color')
      if disp is None:
          disp = ET.Element('display_color')
          std_ext.append(disp)
      disp.text = hex_color
  \<close>
  The second half of the body works on \<^verbatim>\<open>std_ext\<close>; it is \<open>std_display_color\<close>.
\<close>

definition std_display_color :: "string \<Rightarrow> elem \<Rightarrow> elem" where
  "std_display_color hex_color std_ext =
     (case find_child ''display_color'' std_ext of
        None \<Rightarrow> append_child (set_text hex_color (Element ''display_color'')) std_ext
      | Some disp \<Rightarrow> update_child ''display_color'' (set_text hex_color) std_ext)"

definition add_standard_display_color :: "elem \<Rightarrow> string \<Rightarrow> elem" where
  "add_standard_display_color track_elem hex_color =
     (case find_child ''extensions'' track_elem of
        None \<Rightarrow> append_child (std_display_color hex_color (Element ''extensions'')) track_elem
      | Some std_ext \<Rightarrow> update_child ''extensions'' (std_display_color hex_color) track_elem)"

text \<open>
  \<^verbatim>\<open>existing_disp = track_elem.find('.//gpxt:DisplayColor', ns)\<close> followed by
  \<^verbatim>\<open>existing_disp.text = hex_color\<close>: the text of the first descendant with the tag,
  in document order, is replaced. \<open>set_text_first_desc\<close> walks a list of children in
  that order and returns \<open>None\<close> when no descendant has the tag.
\<close>

fun set_text_first_desc :: "string \<Rightarrow> string \<Rightarrow> elem list \<Rightarrow> elem list option" where
  "set_text_first_desc tg s [] = None"
| "set_text_first_desc tg s (Elem t attrs tx ta cs # rest) =
     (if t = tg then Some (Elem t attrs (Some s) ta cs # rest)
      else case set_text_first_desc tg s cs of
             Some cs' \<Rightarrow> Some (Elem t attrs tx ta cs' # rest)
           | None \<Rightarrow>
               (case set_text_first_desc tg s rest of
                  Some rest' \<Rightarrow> Some (Elem t attrs tx ta cs # rest')
                | None \<Rightarrow> None))"

text \<open>
  The block that is appended when no such descendant exists:
  \<^verbatim>\<open>
  gpx_ext = ET.Element(f'{{{GPX_NS}}}extensions')
  gpxt_track_ext = ET.SubElement(gpx_ext, f'{{{GARMIN_GPXX_NS}}}TrackExtension')
  gpxt_disp = ET.SubElement(gpxt_track_ext, f'{{{GARMIN_GPXX_NS}}}DisplayColor')
  gpxt_disp.text = hex_color
  \<close>
\<close>

definition gpxt_block :: "string \<Rightarrow> elem" where
  "gpxt_block hex_color =
     append_child
       (append_child (set_text hex_color (Element (qname GARMIN_GPXX_NS ''DisplayColor'')))
          (Element (qname GARMIN_GPXX_NS ''TrackExtension'')))
       (Element (qname GPX_NS ''extensions''))"

text \<open>
  \<^verbatim>\<open>
  def add_or_update_gpxt_display_color(track_elem, hex_color):
      existing_disp = track_elem.find('.//gpxt:DisplayColor', ns)
      if existing_disp is not None:
          existing_disp.text = hex_color
          return
      ... build gpx_ext ...
      track_elem.append(gpx_ext)
  \<close>
\<close>

definition add_or_update_gpxt_display_color :: "elem \<Rightarrow> string \<Rightarrow> elem" where
  "add_or_update_gpxt_display_color track_elem hex_color =
     (case set_text_first_desc (qname GARMIN_GPXX_NS ''DisplayColor'') hex_color
             (children track_elem) of
        Some cs' \<Rightarrow> set_children cs' track_elem
      | None \<Rightarrow> append_child (gpxt_block hex_color) track_elem)"

text \<open>The number of elements with a given tag below an element.\<close>

definition count_tag :: "string \<Rightarrow> elem \<Rightarrow> nat" where
  "count_tag tg e = length (findall_desc tg e)"

subsection \<open>Bounds\<close>

text \<open>
  \<^verbatim>\<open>float(s)\<close> is a parameter \<open>pyfloat\<close> of the model: \<open>None\<close> stands for
  \<^verbatim>\<open>ValueError\<close>, the only exception \<^verbatim>\<open>float\<close> raises on a string. The values
  are taken from a linear order, which covers every float but NaN.

  Python's \<^verbatim>\<open>min\<close> and \<^verbatim>\<open>max\<close> keep the first of equal candidates.
\<close>

definition py_min :: "'f::linorder \<Rightarrow> 'f list \<Rightarrow> 'f" where
  "py_min x xs = foldl (\<lambda>m y. if y < m then y else m) x xs"

definition py_max :: "'f::linorder \<Rightarrow> 'f list \<Rightarrow> 'f" where
  "py_max x xs = foldl (\<lambda>m y. if m < y then y else m) x xs"

text \<open>
  One turn of the loop over the track points:
  \<^verbatim>\<open>
  lat = pt.get('lat')
  lon = pt.get('lon')
  if lat and lon:
      try:
          lats.append(float(lat))
          lons.append(float(lon))
      except ValueError:
          pass
  \<close>
  \<^verbatim>\<open>lats.append\<close> has already run when \<^verbatim>\<open>float(lon)\<close> raises.
\<close>

definition collect_point ::
  "(string \<Rightarrow> 'f option) \<Rightarrow> 'f list \<times> 'f list \<Rightarrow> elem \<Rightarrow> 'f list \<times> 'f list" where
  "collect_point pyfloat acc pt =
     (case (get_attr ''lat'' pt, get_attr ''lon'' pt) of
        (Some lat, Some lon) \<Rightarrow>
          if lat \<noteq> [] \<and> lon \<noteq> [] then
            (case pyfloat lat of
               None \<Rightarrow> acc
             | Some a \<Rightarrow>
                 (case pyfloat lon of
                    None \<Rightarrow> (fst acc @ [a], snd acc)
                  | Some b \<Rightarrow> (fst acc @ [a], snd acc @ [b])))
          else acc
      | _ \<Rightarrow> acc)"

definition collect_points ::
  "(string \<Rightarrow> 'f option) \<Rightarrow> elem list \<Rightarrow> 'f list \<times> 'f list" where
  "collect_points pyfloat trkpts = foldl (collect_point pyfloat) ([], []) trkpts"

text \<open>
  \<^verbatim>\<open>
  def calculate_bounds(track_elem):
      trkpts = track_elem.findall('.//gpx:trkpt', ns)
      lats, lons = [], []
      for pt in trkpts: ...
      if lats and lons:
          return min(lats), min(lons), max(lats), max(lons)
      return None
  \<close>
\<close>

definition bounds_of :: "'f::linorder list \<times> 'f list \<Rightarrow> ('f \<times> 'f \<times> 'f \<times> 'f) option" where
  "bounds_of ll =
     (case ll of
        (a # lats, b # lons) \<Rightarrow>
          Some (py_min a lats, py_min b lons, py_max a lats, py_max b lons)
      | _ \<Rightarrow> None)"

definition calculate_bounds ::
  "(string \<Rightarrow> 'f::linorder option) \<Rightarrow> elem \<Rightarrow> ('f \<times> 'f \<times> 'f \<times> 'f) option" where
  "calculate_bounds pyfloat track_elem =
     bounds_of (collect_points pyfloat (findall_desc (qname GPX_NS ''trkpt'') track_elem))"

text \<open>
  \<^verbatim>\<open>
  def add_bounds(track_elem, bounds):
      if bounds:
          minlat, minlon, maxlat, maxlon = bounds
          bounds_elem = ET.Element('bounds', attrib={'minlat': f"{minlat}", ...})
          track_elem.insert(0, bounds_elem)
  \<close>
  \<^verbatim>\<open>f"{x}"\<close> on a float is the parameter \<open>fmt\<close>.
\<close>

definition add_bounds :: "('f \<Rightarrow> string) \<Rightarrow> elem \<Rightarrow> ('f \<times> 'f \<times> 'f \<times> 'f) option \<Rightarrow> elem" where
  "add_bounds fmt track_elem bounds =
     (case bounds of
        None \<Rightarrow> track_elem
      | Some (minlat, minlon, maxlat, maxlon) \<Rightarrow>
          insert_first
            (Element_attrib ''bounds''
               [(''minlat'', fmt minlat), (''minlon'', fmt minlon),
                (''maxlat'', fmt maxlat), (''maxlon'', fmt maxlon)])
            track_elem)"

subsection \<open>Floats\<close>

text \<open>
  A finite binary64 value is the rational number it denotes. Every arithmetic operation
  of Python on floats is the exact operation followed by rounding to the nearest
  representable value, ties to even: \<open>rnd64\<close>. For \<open>x > 0\<close>, \<open>ilog2 x\<close> is the
  exponent \<open>e\<close> with \<open>2 ^ e \<le> x < 2 ^ (e + 1)\<close>; the spacing of representable
  values there is \<open>2 ^ (e - 52)\<close>, and \<open>2 ^ (- 1074)\<close> below the normal range.
  Overflow to infinity (from \<open>2 ^ 1024\<close> on) is not modelled: the script's values
  stay below 720.
\<close>

definition pow2 :: "int \<Rightarrow> rat" where
  "pow2 k = (if 0 \<le> k then 2 ^ nat k else 1 / 2 ^ nat (- k))"

definition ilog2 :: "rat \<Rightarrow> int" where
  "ilog2 x = (if 1 \<le> x then bitlen \<lfloor>x\<rfloor> - 1 else - bitlen (\<lceil>1 / x\<rceil> - 1))"

definition round_half_even :: "rat \<Rightarrow> int" where
  "round_half_even m =
     (let f = \<lfloor>m\<rfloor>; d = m - of_int f
      in if d < 1 / 2 then f else if 1 / 2 < d then f + 1 else if even f then f else f + 1)"

definition rnd64 :: "rat \<Rightarrow> rat" where
  "rnd64 x =
     (if x = 0 then 0
      else
        let a = \<bar>x\<bar>; e = max (ilog2 a) (- 1022); u = pow2 (e - 52)
        in sgn x * of_int (round_half_even (a / u)) * u)"

definition fadd :: "rat \<Rightarrow> rat \<Rightarrow> rat" where
  "fadd a b = rnd64 (a + b)"

definition fsub :: "rat \<Rightarrow> rat \<Rightarrow> rat" where
  "fsub a b = rnd64 (a - b)"

definition fmul :: "rat \<Rightarrow> rat \<Rightarrow> rat" where
  "fmul a b = rnd64 (a * b)"

text \<open>Division by a non-zero float.\<close>

definition fdiv :: "rat \<Rightarrow> rat \<Rightarrow> rat" where
  "fdiv a b = rnd64 (a / b)"

text \<open>\<^verbatim>\<open>int(x)\<close> on a float truncates towards zero.\<close>

definition trunc :: "rat \<Rightarrow> int" where
  "trunc x = (if 0 \<le> x then \<lfloor>x\<rfloor> else \<lceil>x\<rceil>)"

subsection \<open>\<^verbatim>\<open>colorsys.hsv_to_rgb\<close>\<close>

text \<open>
  \<^verbatim>\<open>
  def hsv_to_rgb(h, s, v):
      if s == 0.0:
          return v, v, v
      i = int(h*6.0)
      f = (h*6.0) - i
      p = v*(1.0 - s)
      q = v*(1.0 - s*f)
      t = v*(1.0 - s*(1.0-f))
      i = i%6
      if i == 0: return v, t, p
      if i == 1: return q, v, p
      if i == 2: return p, v, t
      if i == 3: return p, q, v
      if i == 4: return t, p, v
      if i == 5: return v, p, q
  \<close>
\<close>

definition hsv_to_rgb :: "rat \<Rightarrow> rat \<Rightarrow> rat \<Rightarrow> rat \<times> rat \<times> rat" where
  "hsv_to_rgb h s v =
     (if s = 0 then (v, v, v)
      else
        let i = trunc (fmul h 6);
            f = fsub (fmul h 6) (of_int i);
            p = fmul v (fsub 1 s);
            q = fmul v (fsub 1 (fmul s f));
            t = fmul v (fsub 1 (fmul s (fsub 1 f)));
            i = i mod 6
        in if i = 0 then (v, t, p)
           else if i = 1 then (q, v, p)
           else if i = 2 then (p, v, t)
           else if i = 3 then (p, q, v)
           else if i = 4 then (t, p, v)
           else (v, p, q))"

subsection \<open>\<^verbatim>\<open>generate_safe_colors\<close>\<close>

text \<open>Upper-case hexadecimal digits of a natural number, and the format \<^verbatim>\<open>{:02X}\<close>.\<close>

fun hex_digits :: "nat \<Rightarrow> string" where
  "hex_digits n =
     (if n < 16 then [''0123456789ABCDEF'' ! n]
      else hex_digits (n div 16) @ [''0123456789ABCDEF'' ! (n mod 16)])"

definition format_02X :: "int \<Rightarrow> string" where
  "format_02X i =
     (if i < 0 then ''-'' @ hex_digits (nat (- i))
      else
        let d = hex_digits (nat i)
        in if length d < 2 then ''0'' @ d else d)"

text \<open>
  \<^verbatim>\<open>
  banned = (50.0 <= hue_deg <= 70.0 or 100.0 <= hue_deg <= 140.0 or
            180.0 <= hue_deg <= 210.0)
  \<close>
\<close>

definition banned :: "rat \<Rightarrow> bool" where
  "banned hue_deg =
     (50 \<le> hue_deg \<and> hue_deg \<le> 70 \<or> 100 \<le> hue_deg \<and> hue_deg \<le> 140 \<or>
      180 \<le> hue_deg \<and> hue_deg \<le> 210)"

text \<open>
  \<^verbatim>\<open>
  r, g, b = colorsys.hsv_to_rgb(hue_deg / 360.0, 1.0, 0.85)
  hex_color = '#{:02X}{:02X}{:02X}'.format(int(r * 255), int(g * 255), int(b * 255))
  \<close>
  The literal \<^verbatim>\<open>0.85\<close> is the float nearest to 85/100.
\<close>

definition hex_color_of :: "rat \<Rightarrow> string" where
  "hex_color_of hue_deg =
     (case hsv_to_rgb (fdiv hue_deg 360) 1 (rnd64 (85 / 100)) of
        (r, g, b) \<Rightarrow>
          ''#'' @ format_02X (trunc (fmul r 255)) @ format_02X (trunc (fmul g 255)) @
          format_02X (trunc (fmul b 255)))"

text \<open>
  One turn of the loop: the colour list after \<^verbatim>\<open>if not banned: ... append\<close>, and
  the hue after \<^verbatim>\<open>hue_deg += step; if hue_deg >= 360.0: hue_deg -= 360.0\<close>.
\<close>

definition next_colors :: "rat \<Rightarrow> string list \<Rightarrow> string list" where
  "next_colors hue_deg colors =
     (if banned hue_deg then colors else colors @ [hex_color_of hue_deg])"

definition next_hue :: "rat \<Rightarrow> rat \<Rightarrow> rat" where
  "next_hue step hue_deg =
     (let h = fadd hue_deg step in if 360 \<le> h then fsub h 360 else h)"

text \<open>
  \<^verbatim>\<open>while len(colors) < n: ...\<close> Nothing in the loop bounds the number of turns, so
  the loop is a partial function: \<open>None\<close> is a run that never returns.
\<close>

partial_function (option) color_loop ::
  "int \<Rightarrow> rat \<Rightarrow> rat \<Rightarrow> string list \<Rightarrow> string list option" where
  "color_loop n step hue_deg colors =
     (if int (length colors) < n
      then color_loop n step (next_hue step hue_deg) (next_colors hue_deg colors)
      else Some colors)"

declare color_loop.simps [code]

datatype py_error = ZeroDivisionError

text \<open>
  \<^verbatim>\<open>
  def generate_safe_colors(n=8):
      colors = []
      step = 360.0 / n
      hue_deg = 0.0
      while len(colors) < n: ...
      return colors
  \<close>
  \<^verbatim>\<open>360.0 / n\<close> converts the integer \<^verbatim>\<open>n\<close> to a float and raises
  \<^verbatim>\<open>ZeroDivisionError\<close> when it is zero.
\<close>

definition generate_safe_colors :: "int \<Rightarrow> (py_error + string list) option" where
  "generate_safe_colors n =
     (if n = 0 then Some (Inl ZeroDivisionError)
      else map_option Inr (color_loop n (fdiv 360 (rnd64 (of_int n))) 0 []))"

text \<open>\<^verbatim>\<open>COLORS = generate_safe_colors(8)\<close>, evaluated when the module is loaded.\<close>

definition COLORS :: "string list" where
  "COLORS = (case generate_safe_colors 8 of Some (Inr colors) \<Rightarrow> colors | _ \<Rightarrow> [])"

subsection \<open>Paths\<close>

text \<open>
  \<^verbatim>\<open>os.path\<close> on a POSIX system. \<open>path_head\<close> is the path up to and including
  its last slash, \<^verbatim>\<open>p[:p.rfind('/') + 1]\<close>.
\<close>

definition basename :: "string \<Rightarrow> string" where
  "basename p = rev (takeWhile (\<lambda>c. c \<noteq> CHR ''/'') (rev p))"

definition path_head :: "string \<Rightarrow> string" where
  "path_head p = rev (dropWhile (\<lambda>c. c \<noteq> CHR ''/'') (rev p))"

text \<open>
  \<^verbatim>\<open>
  def dirname(p):
      i = p.rfind('/') + 1
      head = p[:i]
      if head and head != '/' * len(head):
          head = head.rstrip('/')
      return head
  \<close>
\<close>

definition dirname :: "string \<Rightarrow> string" where
  "dirname p =
     (let head = path_head p
      in if head \<noteq> [] \<and> head \<noteq> replicate (length head) CHR ''/''
         then rev (dropWhile (\<lambda>c. c = CHR ''/'') (rev head)) else head)"

text \<open>
  \<^verbatim>\<open>os.path.splitext(p)[0]\<close>: the path without its extension. The extension starts
  at the last dot of the last component, unless only dots come before it there.
\<close>

definition splitext_root :: "string \<Rightarrow> string" where
  "splitext_root p =
     (let name = basename p;
          before_dot = rev (drop 1 (dropWhile (\<lambda>c. c \<noteq> CHR ''.'') (rev name)))
      in if CHR ''.'' \<in> set name \<and> (\<exists>c \<in> set before_dot. c \<noteq> CHR ''.'')
         then path_head p @ before_dot else p)"

text \<open>\<^verbatim>\<open>os.path.join(a, b)\<close>\<close>

definition path_join :: "string \<Rightarrow> string \<Rightarrow> string" where
  "path_join a b =
     (if b \<noteq> [] \<and> hd b = CHR ''/'' then b
      else if a = [] \<or> last a = CHR ''/'' then a @ b
      else a @ ''/'' @ b)"

subsection \<open>The outside world\<close>

text \<open>
  What a run changes outside the process: the directories it creates, the documents it
  writes (path and root element, in the order of writing; a later write to the same path
  replaces the file) and the lines it prints. Creating a directory and writing a file
  are taken to succeed.
\<close>

record world =
  dirs :: "string list"
  writes :: "(string \<times> elem) list"
  printed :: "string list"

definition makedirs :: "string \<Rightarrow> world \<Rightarrow> world" where
  "makedirs d w = w\<lparr>dirs := dirs w @ [d]\<rparr>"

definition write_file :: "string \<Rightarrow> elem \<Rightarrow> world \<Rightarrow> world" where
  "write_file path doc w = w\<lparr>writes := writes w @ [(path, doc)]\<rparr>"

definition print :: "string \<Rightarrow> world \<Rightarrow> world" where
  "print line w = w\<lparr>printed := printed w @ [line]\<rparr>"

text \<open>
  The library calls whose results the script only passes on are parameters of the model:
  \<^verbatim>\<open>float\<close>, the conversion of a float to text, the copy of an element by
  \<^verbatim>\<open>ET.fromstring(ET.tostring(e, encoding='utf-8'))\<close>, and the clock reading
  \<^verbatim>\<open>datetime.now().strftime("%Y%m%d_%H%M%S")\<close>, in this order the fields of the
  record \<open>lib\<close>. The copy can fail: \<^verbatim>\<open>ET.tostring\<close> writes the tail of the
  element after its end tag, and \<^verbatim>\<open>ET.fromstring\<close> raises \<^verbatim>\<open>ParseError\<close> on text
  after the document element. \<open>Inl\<close> is the exception raised.
\<close>

datatype parse_failure = ParseError string | OtherException string

record 'f lib =
  lib_float :: "string \<Rightarrow> 'f option"
  lib_format :: "'f \<Rightarrow> string"
  lib_copy :: "elem \<Rightarrow> parse_failure + elem"
  lib_now :: string

text \<open>
  \<^verbatim>\<open>ET.parse(input_gpx_path)\<close> returns the tree or raises; the script tells
  \<^verbatim>\<open>ET.ParseError\<close> from any other exception. The argument of a \<open>parse_failure\<close>
  is the text of the exception.

  A call either returns or ends with an exception that nothing catches. In both cases it
  leaves a state behind: what was written and printed up to that point, and the tree in
  memory.
\<close>

datatype 'a outcome = Returned 'a | Uncaught parse_failure 'a

subsection \<open>\<^verbatim>\<open>split_gpx\<close>\<close>

text \<open>
  \<^verbatim>\<open>
  new_gpx_root = ET.Element('gpx', attrib={'version': '1.1',
      'creator': 'GPX Splitter Script', 'xmlns': GPX_NS, 'xmlns:gpx': GPX_NS,
      'xmlns:gpxt': GARMIN_GPXX_NS})
  \<close>
\<close>

definition new_gpx_root :: elem where
  "new_gpx_root =
     Element_attrib ''gpx''
       [(''version'', ''1.1''), (''creator'', ''GPX Splitter Script''), (''xmlns'', GPX_NS),
        (''xmlns:gpx'', GPX_NS), (''xmlns:gpxt'', GARMIN_GPXX_NS)]"

text \<open>
  The copies of a list of elements, made one after the other; the first copy that raises
  ends the loop.
\<close>

fun copy_all :: "(elem \<Rightarrow> parse_failure + elem) \<Rightarrow> elem list \<Rightarrow> parse_failure + elem list" where
  "copy_all cp [] = Inr []"
| "copy_all cp (x # xs) =
     (case cp x of
        Inl e \<Rightarrow> Inl e
      | Inr y \<Rightarrow> (case copy_all cp xs of Inl e \<Rightarrow> Inl e | Inr ys \<Rightarrow> Inr (y # ys)))"

text \<open>
  \<^verbatim>\<open>
  def write_all_waypoints(root, target_folder):
      wpts = root.findall('gpx:wpt', ns)
      if not wpts:
          print("Geen <wpt> waypoints gevonden; All-Waypoints.gpx niet aangemaakt.")
          return
      new_gpx_root = ...
      for w in wpts:
          w_copy = ET.fromstring(ET.tostring(w, encoding='utf-8'))
          new_gpx_root.append(w_copy)
      output_path = os.path.join(target_folder, "All-Waypoints.gpx")
      ET.ElementTree(new_gpx_root).write(output_path, ...)
      print(f"{len(wpts)} waypoints opgeslagen in: {output_path}")
  \<close>
  When a copy raises, nothing has been written or printed by this function.
\<close>

definition write_all_waypoints ::
  "'f lib \<Rightarrow> elem \<Rightarrow> string \<Rightarrow> world \<Rightarrow> world outcome" where
  "write_all_waypoints l root_elem target_folder w =
     (let wpts = findall_children (qname GPX_NS ''wpt'') root_elem
      in if wpts = [] then
           Returned
             (print ''Geen <wpt> waypoints gevonden; All-Waypoints.gpx niet aangemaakt.'' w)
         else
           case copy_all (lib_copy l) wpts of
             Inl e \<Rightarrow> Uncaught e w
           | Inr copies \<Rightarrow>
               let doc = foldl (\<lambda>d w_copy. append_child w_copy d) new_gpx_root copies;
                   output_path = path_join target_folder ''All-Waypoints.gpx''
               in Returned
                    (print (decimal (length wpts) @ '' waypoints opgeslagen in: '' @ output_path)
                       (write_file output_path doc w)))"

text \<open>
  The annotation of one track in the loop of \<^verbatim>\<open>split_gpx\<close>:
  \<^verbatim>\<open>
  chosen_color_hex = COLORS[(idx - 1) % len(COLORS)]
  add_standard_display_color(track, chosen_color_hex)
  add_or_update_gpxt_display_color(track, chosen_color_hex)
  bounds = calculate_bounds(track)
  add_bounds(track, bounds)
  \<close>
  \<^verbatim>\<open>track\<close> is the element of the parsed tree, and each call changes it in place.
\<close>

definition chosen_color_hex :: "nat \<Rightarrow> string" where
  "chosen_color_hex idx = COLORS ! ((idx - 1) mod length COLORS)"

definition annotate :: "('f::linorder) lib \<Rightarrow> nat \<Rightarrow> elem \<Rightarrow> elem" where
  "annotate l idx track =
     (let track1 = add_standard_display_color track (chosen_color_hex idx);
          track2 = add_or_update_gpxt_display_color track1 (chosen_color_hex idx);
          bounds = calculate_bounds (lib_float l) track2
      in add_bounds (lib_format l) track2 bounds)"

text \<open>
  \<^verbatim>\<open>tracks = root.findall('gpx:trk', ns)\<close> is a list of references to children of
  the root. The model keeps the position of each such child; the in-place changes to
  \<^verbatim>\<open>track\<close> are an update of the root at that position.
  (\<open>root_elem\<close> is the variable \<^verbatim>\<open>root\<close> of the script.)
\<close>

definition track_positions :: "elem \<Rightarrow> nat list" where
  "track_positions root_elem =
     filter (\<lambda>i. tag (children root_elem ! i) = qname GPX_NS ''trk'')
       [0..<length (children root_elem)]"

text \<open>
  One turn of \<^verbatim>\<open>for idx, track in enumerate(tracks, start=1)\<close>: the name is read,
  the track annotated in place, copied into a new document, and the document written to
  \<^verbatim>\<open>os.path.join(target_folder, f"{safe_name}.gpx")\<close>. When the copy raises, the
  track has been annotated and nothing has been written for it.
\<close>

definition split_track ::
  "('f::linorder) lib \<Rightarrow> string \<Rightarrow> elem \<times> world \<Rightarrow> nat \<times> nat \<Rightarrow> (elem \<times> world) outcome" where
  "split_track l target_folder st ip =
     (case (st, ip) of
        ((root_elem, w), (idx, pos)) \<Rightarrow>
          let track = children root_elem ! pos;
              name = safe_name track idx;
              track' = annotate l idx track;
              root_elem' = set_children ((children root_elem)[pos := track']) root_elem
          in case lib_copy l track' of
               Inl e \<Rightarrow> Uncaught e (root_elem', w)
             | Inr track_copy \<Rightarrow>
                 let doc = append_child track_copy new_gpx_root;
                     output_path = path_join target_folder (name @ ''.gpx'')
                 in Returned (root_elem', write_file output_path doc w))"

text \<open>The loop: an exception in one turn ends it.\<close>

fun track_loop ::
  "('f::linorder) lib \<Rightarrow> string \<Rightarrow> (nat \<times> nat) list \<Rightarrow> elem \<times> world \<Rightarrow> (elem \<times> world) outcome" where
  "track_loop l target_folder [] st = Returned st"
| "track_loop l target_folder (ip # rest) st =
     (case split_track l target_folder st ip of
        Uncaught e st' \<Rightarrow> Uncaught e st'
      | Returned st' \<Rightarrow> track_loop l target_folder rest st')"

definition enumerate1 :: "'a list \<Rightarrow> (nat \<times> 'a) list" where
  "enumerate1 xs = zip [1..<Suc (length xs)] xs"

text \<open>
  \<^verbatim>\<open>
  def split_gpx(input_gpx_path):
      base_name = os.path.splitext(os.path.basename(input_gpx_path))[0]
      timestamp = datetime.now().strftime("%Y%m%d_%H%M%S")
      target_folder = os.path.join(os.path.dirname(input_gpx_path),
                                   f"{base_name}_{timestamp}")
      os.makedirs(target_folder, exist_ok=True)
      try:
          tree = ET.parse(input_gpx_path)
      except ET.ParseError as e:
          print(f"Fout: Het GPX-bestand kon niet worden geparsed: {e}")
          return
      except Exception as e:
          print(f"Onverwachte fout bij het lezen van het GPX-bestand: {e}")
          return
      root = tree.getroot()
      tracks = root.findall('gpx:trk', ns)
      if not tracks:
          print("Geen <trk> deelroutes gevonden in het GPX-bestand.")
      else:
          for idx, track in enumerate(tracks, start=1): ...
          if tracks:
              print(f"{len(tracks)} deelroutes zijn succesvol gesplitst en
                      opgeslagen in: {target_folder}")
      write_all_waypoints(root, target_folder)
  \<close>
  The result tells whether the run returns, and gives the world after the run and the
  parsed tree as the run leaves it in memory (\<open>None\<close> when nothing was parsed). The
  copies in the loop and in \<^verbatim>\<open>write_all_waypoints\<close> are outside the \<^verbatim>\<open>try\<close>
  block: an exception there ends the run.
\<close>

definition target_folder_of :: "'f lib \<Rightarrow> string \<Rightarrow> string" where
  "target_folder_of l input_gpx_path =
     path_join (dirname input_gpx_path)
       (splitext_root (basename input_gpx_path) @ ''_'' @ lib_now l)"

definition split_gpx ::
  "('f::linorder) lib \<Rightarrow> string \<Rightarrow> parse_failure + elem \<Rightarrow> world \<Rightarrow>
     (world \<times> elem option) outcome" where
  "split_gpx l input_gpx_path parsed w0 =
     (let target_folder = target_folder_of l input_gpx_path;
          w1 = makedirs target_folder w0
      in case parsed of
           Inl (ParseError e) \<Rightarrow>
             Returned
               (print (''Fout: Het GPX-bestand kon niet worden geparsed: '' @ e) w1, None)
         | Inl (OtherException e) \<Rightarrow>
             Returned
               (print (''Onverwachte fout bij het lezen van het GPX-bestand: '' @ e) w1, None)
         | Inr root_elem \<Rightarrow>
             let tracks = track_positions root_elem;
                 looped =
                   (if tracks = [] then
                      Returned
                        (root_elem,
                         print ''Geen <trk> deelroutes gevonden in het GPX-bestand.'' w1)
                    else
                      case track_loop l target_folder (enumerate1 tracks) (root_elem, w1) of
                        Uncaught e st \<Rightarrow> Uncaught e st
                      | Returned (r, w) \<Rightarrow>
                          Returned
                            (r, print (decimal (length tracks) @
                                  '' deelroutes zijn succesvol gesplitst en opgeslagen in: '' @
                                  target_folder) w))
             in case looped of
                  Uncaught e (root_elem', w2) \<Rightarrow> Uncaught e (w2, Some root_elem')
                | Returned (root_elem', w2) \<Rightarrow>
                    (case write_all_waypoints l root_elem' target_folder w2 of
                       Uncaught e w3 \<Rightarrow> Uncaught e (w3, Some root_elem')
                     | Returned w3 \<Rightarrow> Returned (w3, Some root_elem')))"

subsection \<open>A reading of \<^verbatim>\<open>float\<close> on plain decimal text\<close>

text \<open>
  On text of the form \<^verbatim>\<open>[+-]digits[.digits]\<close> Python's \<^verbatim>\<open>float\<close> returns the
  float nearest to the decimal number. \<open>float_plain\<close> is \<^verbatim>\<open>float\<close> on such text and
  \<open>None\<close> elsewhere; it serves as a concrete value of the parameter \<open>pyfloat\<close> when
  the model is evaluated on text of this form or on text without any digit.
\<close>

definition digit_of :: "char \<Rightarrow> nat option" where
  "digit_of c =
     (let n = (of_char c :: nat) in if 48 \<le> n \<and> n \<le> 57 then Some (n - 48) else None)"

fun digits_value :: "nat \<Rightarrow> string \<Rightarrow> nat option" where
  "digits_value acc [] = Some acc"
| "digits_value acc (c # cs) =
     (case digit_of c of None \<Rightarrow> None | Some d \<Rightarrow> digits_value (10 * acc + d) cs)"

definition unsigned_plain :: "string \<Rightarrow> rat option" where
  "unsigned_plain s =
     (let ip = takeWhile (\<lambda>c. c \<noteq> CHR ''.'') s;
          fp = drop 1 (dropWhile (\<lambda>c. c \<noteq> CHR ''.'') s)
      in if ip = [] \<and> fp = [] then None
         else
           case (digits_value 0 ip, digits_value 0 fp) of
             (Some i, Some f) \<Rightarrow> Some (of_nat i + of_nat f / 10 ^ length fp)
           | _ \<Rightarrow> None)"

definition float_plain :: "string \<Rightarrow> rat option" where
  "float_plain s =
     (case s of
        [] \<Rightarrow> None
      | c # cs \<Rightarrow>
          if c = CHR ''-'' then map_option (\<lambda>x. rnd64 (- x)) (unsigned_plain cs)
          else if c = CHR ''+'' then map_option rnd64 (unsigned_plain cs)
          else map_option rnd64 (unsigned_plain s))"

subsection \<open>The bounding box in the words of the specification\<close>

text \<open>
  The specification describes the box through the valid points of a track: a point is
  valid when its \<^verbatim>\<open>lat\<close> and \<^verbatim>\<open>lon\<close> both parse as floats; the box is the
  minimum and maximum of the valid latitudes and longitudes, and there is none when the
  track has no valid point. \<open>valid_coords\<close> and \<open>spec_bounds\<close> follow these words, not
  the script; they are what \<open>calculate_bounds\<close> is compared with.
\<close>

definition valid_coords :: "(string \<Rightarrow> 'f option) \<Rightarrow> elem \<Rightarrow> ('f \<times> 'f) option" where
  "valid_coords pyfloat pt =
     (case (get_attr ''lat'' pt, get_attr ''lon'' pt) of
        (Some lat, Some lon) \<Rightarrow>
          (case (pyfloat lat, pyfloat lon) of
             (Some a, Some b) \<Rightarrow> if lat \<noteq> [] \<and> lon \<noteq> [] then Some (a, b) else None
           | _ \<Rightarrow> None)
      | _ \<Rightarrow> None)"

definition spec_bounds ::
  "(string \<Rightarrow> 'f::linorder option) \<Rightarrow> elem \<Rightarrow> ('f \<times> 'f \<times> 'f \<times> 'f) option" where
  "spec_bounds pyfloat track_elem =
     (case List.map_filter (valid_coords pyfloat)
             (findall_desc (qname GPX_NS ''trkpt'') track_elem) of
        [] \<Rightarrow> None
      | p # ps \<Rightarrow>
          Some (Min (fst ` set (p # ps)), Min (snd ` set (p # ps)),
                Max (fst ` set (p # ps)), Max (snd ` set (p # ps))))"

text \<open>
  A point whose \<^verbatim>\<open>lat\<close> parses while its \<^verbatim>\<open>lon\<close> does not: not a valid point,
  yet one that reaches the \<^verbatim>\<open>try\<close> block of the script.
\<close>

definition half_parsed :: "(string \<Rightarrow> 'f option) \<Rightarrow> elem \<Rightarrow> bool" where
  "half_parsed pyfloat pt =
     (case (get_attr ''lat'' pt, get_attr ''lon'' pt) of
        (Some lat, Some lon) \<Rightarrow>
          lat \<noteq> [] \<and> lon \<noteq> [] \<and> pyfloat lat \<noteq> None \<and> pyfloat lon = None
      | _ \<Rightarrow> False)"

subsection \<open>Well-formed colours\<close>

text \<open>
  A colour string as the specification wants it: \<^verbatim>\<open>#RRGGBB\<close> with upper-case
  hexadecimal digits.
\<close>

definition is_hex_color :: "string \<Rightarrow> bool" where
  "is_hex_color s =
     (case s of
        [] \<Rightarrow> False
      | c # cs \<Rightarrow> c = CHR ''#'' \<and> length cs = 6 \<and> list_all (\<lambda>d. d \<in> set ''0123456789ABCDEF'') cs)"

subsection \<open>Sample documents\<close>

text \<open>
  Elements as the parser builds them from
  \<^verbatim>\<open><trkpt lat="..." lon="..."/>\<close>, from a track with one segment, and from a
  \<^verbatim>\<open>gpx\<close> root, all in the GPX namespace.
\<close>

definition sample_trkpt :: "string \<Rightarrow> string \<Rightarrow> elem" where
  "sample_trkpt lat lon =
     Elem (qname GPX_NS ''trkpt'') [(''lat'', lat), (''lon'', lon)] None None []"

definition sample_trk :: "elem list \<Rightarrow> elem" where
  "sample_trk pts =
     Elem (qname GPX_NS ''trk'') [] None None [Elem (qname GPX_NS ''trkseg'') [] None None pts]"

definition sample_gpx :: "elem list \<Rightarrow> elem" where
  "sample_gpx cs = Elem (qname GPX_NS ''gpx'') [(''version'', ''1.1'')] None None cs"

text \<open>
  Values for the parameters of a run: \<^verbatim>\<open>float\<close> on plain decimal text, the text of a
  float with an integral value (\<^verbatim>\<open>10.0\<close>; used on such values only), a copy, and a
  clock reading. The copy returns the element without its tail when the tail is absent
  or consists of the white space that XML allows after the document element (space, tab,
  line feed, carriage return), and raises \<^verbatim>\<open>ParseError\<close> otherwise (the position that
  the text of the exception ends with is left out). The world before a run is empty.
\<close>

definition format_plain :: "rat \<Rightarrow> string" where
  "format_plain x = (if x < 0 then ''-'' else []) @ decimal (nat \<lfloor>\<bar>x\<bar>\<rfloor>) @ ''.0''"

definition blank_tail :: "elem \<Rightarrow> bool" where
  "blank_tail e =
     (case elem_tail e of
        None \<Rightarrow> True
      | Some t \<Rightarrow> list_all (\<lambda>c. c \<in> set [CHR '' '', CHR 0x09, CHR 0x0A, CHR 0x0D]) t)"

definition sample_copy :: "elem \<Rightarrow> parse_failure + elem" where
  "sample_copy e =
     (if blank_tail e then Inr (Elem (tag e) (attrib e) (elem_text e) None (children e))
      else Inl (ParseError ''junk after document element''))"

definition sample_lib :: "rat lib" where
  "sample_lib =
     \<lparr>lib_float = float_plain, lib_format = format_plain, lib_copy = sample_copy,
      lib_now = ''20240101_120000''\<rparr>"

definition empty_world :: world where
  "empty_world = \<lparr>dirs = [], writes = [], printed = []\<rparr>"

section \<open>Properties\<close>

subsection \<open>File names\<close>

lemma dropWhile_all: "\<forall>c\<in>set s. P c \<Longrightarrow> dropWhile P s = []"
  by (induction s) auto

lemma strip_where_all: "\<forall>c\<in>set s. P c \<Longrightarrow> strip_where P s = []"
proof -
  assume "\<forall>c\<in>set s. P c"
  then have d: "dropWhile P s = []" by (rule dropWhile_all)
  show ?thesis unfolding strip_where_def d by simp
qed

lemma mem_dropWhile: "c \<in> set xs \<Longrightarrow> \<not> P c \<Longrightarrow> c \<in> set (dropWhile P xs)"
  by (induction xs) auto

lemma strip_where_keeps:
  assumes "c \<in> set s" and "\<not> P c"
  shows "c \<in> set (strip_where P s)"
proof -
  have "c \<in> set (rev (dropWhile P s))"
    using assms by (simp add: mem_dropWhile)
  then have "c \<in> set (dropWhile P (rev (dropWhile P s)))"
    using assms(2) by (rule mem_dropWhile)
  then show ?thesis by (simp add: strip_where_def)
qed

text \<open>A name without a letter, a digit or a hyphen is replaced by the fallback.\<close>

lemma sanitize_fallback:
  assumes "\<forall>c\<in>set name. \<not> is_alnum c \<and> c \<noteq> CHR ''-''"
  shows "sanitize_filename name = ''deelroute''"
proof (cases "name = []")
  case True
  then show ?thesis by (simp add: sanitize_filename_def)
next
  case False
  let ?r = "replace_char CHR '' '' CHR ''_'' (re_sub_disallowed name)"
  have "\<forall>c\<in>set ?r. c = CHR ''_''"
    using assms by (auto simp: replace_char_def re_sub_disallowed_def allowed_def)
  then have "strip_where (\<lambda>c. c = CHR ''_'') ?r = []"
    by (rule strip_where_all)
  then show ?thesis by (simp add: sanitize_filename_def)
qed

text \<open>A letter, digit or hyphen of the name survives, so the fallback is not taken.\<close>

lemma sanitize_keeps:
  assumes "c \<in> set name" and "is_alnum c \<or> c = CHR ''-''"
  shows "c \<in> set (sanitize_filename name) \<and>
         sanitize_filename name =
           strip_where (\<lambda>c. c = CHR ''_'')
             (replace_char CHR '' '' CHR ''_'' (re_sub_disallowed name))"
proof -
  let ?r = "replace_char CHR '' '' CHR ''_'' (re_sub_disallowed name)"
  have ne: "c \<noteq> CHR ''_'' \<and> c \<noteq> CHR '' ''"
    using assms(2) by (auto simp: is_alnum_def)
  have "allowed c"
    using assms(2) by (auto simp: allowed_def)
  then have "c \<in> set (re_sub_disallowed name)"
    using assms(1) by (force simp: re_sub_disallowed_def)
  then have "c \<in> set ?r"
    using ne by (force simp: replace_char_def)
  then have m: "c \<in> set (strip_where (\<lambda>c. c = CHR ''_'') ?r)"
    using ne by (simp add: strip_where_keeps)
  then have "strip_where (\<lambda>c. c = CHR ''_'') ?r \<noteq> []"
    by auto
  moreover have "name \<noteq> []"
    using assms(1) by auto
  ultimately have "sanitize_filename name = strip_where (\<lambda>c. c = CHR ''_'') ?r"
    by (simp add: sanitize_filename_def Let_def)
  with m show ?thesis by simp
qed

lemmas sanitize_eval =
  sanitize_filename_def re_sub_disallowed_def allowed_def is_alnum_def replace_char_def
  strip_where_def

text \<open>
  Claim C4, as stated: sanitising \<^verbatim>\<open>"Ronde van Drenthe #2024"\<close> gives
  \<^verbatim>\<open>"Ronde_van_Drenthe_2024"\<close>, and an all-punctuation name gives the fallback. The
  script does neither: the space and the \<^verbatim>\<open>#\<close> each become an underscore and the
  pair is kept, and a hyphen is in the allowed class, so the name \<^verbatim>\<open>"-"\<close> stays.
\<close>

theorem sanitize_filename_counterexample:
  "sanitize_filename ''Ronde van Drenthe #2024'' \<noteq> ''Ronde_van_Drenthe_2024'' \<and>
   sanitize_filename ''-'' \<noteq> ''deelroute''"
  by (simp add: sanitize_eval)

text \<open>
  Claim C4, amended: sanitising \<^verbatim>\<open>"Ronde van Drenthe #2024"\<close> gives
  \<^verbatim>\<open>"Ronde_van_Drenthe__2024"\<close> (two underscores before 2024); the empty name and
  every name without a letter, digit or hyphen give the fallback \<^verbatim>\<open>"deelroute"\<close>;
  a letter, digit or hyphen of the name is kept, so such a name gives the replaced and
  trimmed text and not the fallback.
\<close>

theorem sanitize_filename_amended:
  "sanitize_filename ''Ronde van Drenthe #2024'' = ''Ronde_van_Drenthe__2024'' \<and>
   sanitize_filename [] = ''deelroute'' \<and>
   ((\<forall>c\<in>set name. \<not> is_alnum c \<and> c \<noteq> CHR ''-'') \<longrightarrow>
      sanitize_filename name = ''deelroute'') \<and>
   (c \<in> set name \<and> (is_alnum c \<or> c = CHR ''-'') \<longrightarrow>
      c \<in> set (sanitize_filename name) \<and>
      sanitize_filename name =
        strip_where (\<lambda>c. c = CHR ''_'')
          (replace_char CHR '' '' CHR ''_'' (re_sub_disallowed name)))"
proof (intro conjI impI)
  show "sanitize_filename ''Ronde van Drenthe #2024'' = ''Ronde_van_Drenthe__2024''"
    by (simp add: sanitize_eval)
  show "sanitize_filename [] = ''deelroute''"
    by (simp add: sanitize_filename_def)
  show "sanitize_filename name = ''deelroute''"
    if "\<forall>c\<in>set name. \<not> is_alnum c \<and> c \<noteq> CHR ''-''"
    using that by (rule sanitize_fallback)
  show "c \<in> set (sanitize_filename name)"
    if "c \<in> set name \<and> (is_alnum c \<or> c = CHR ''-'')"
    using that sanitize_keeps by blast
  show "sanitize_filename name =
        strip_where (\<lambda>c. c = CHR ''_'')
          (replace_char CHR '' '' CHR ''_'' (re_sub_disallowed name))"
    if "c \<in> set name \<and> (is_alnum c \<or> c = CHR ''-'')"
    using that sanitize_keeps by blast
qed

theorem sanitize_filename_amended_witness:
  "list_all (\<lambda>c. \<not> is_alnum c \<and> c \<noteq> CHR ''-'') ''#!? _'' \<and>
   sanitize_filename ''#!? _'' = ''deelroute'' \<and>
   CHR ''a'' \<in> set ''_a-b '' \<and> is_alnum CHR ''a'' \<and>
   sanitize_filename ''_a-b '' = ''a-b''"
proof -
  have h1: "\<forall>c\<in>set ''#!? _''. \<not> is_alnum c \<and> c \<noteq> CHR ''-''"
    by (simp add: is_alnum_def)
  have h2: "CHR ''a'' \<in> set ''_a-b '' \<and> (is_alnum CHR ''a'' \<or> CHR ''a'' = CHR ''-'')"
    by (simp add: is_alnum_def)
  have "sanitize_filename ''#!? _'' = ''deelroute''"
    using sanitize_filename_amended [of "''#!? _''" "CHR ''a''"] h1 by blast
  moreover have "sanitize_filename ''_a-b '' =
      strip_where (\<lambda>c. c = CHR ''_'')
        (replace_char CHR '' '' CHR ''_'' (re_sub_disallowed ''_a-b ''))"
    using sanitize_filename_amended [of "''_a-b ''" "CHR ''a''"] h2 by blast
  ultimately show ?thesis
    using h1 h2
    by (simp add: list_all_iff re_sub_disallowed_def allowed_def is_alnum_def replace_char_def
        strip_where_def)
qed

subsection \<open>Track labels\<close>

lemma strip_all_space: "\<forall>c\<in>set t. is_space c \<Longrightarrow> strip t = []"
  by (simp add: strip_def strip_where_all)

lemma blank_name_filename:
  assumes "find_child (qname GPX_NS ''name'') track = Some name_elem"
    and "elem_text name_elem = Some t" and "t \<noteq> []" and "\<forall>c\<in>set t. is_space c"
  shows "track_name track idx = [] \<and> track_filename track idx = ''deelroute.gpx''"
  using assms
  by (simp add: track_name_def track_filename_def safe_name_def strip_all_space
      sanitize_filename_def)

text \<open>
  Claim C10: a track whose name element holds only white space gets the stripped, empty
  name and not the generated label \<^verbatim>\<open>deelroute_<ordinal>\<close>; its file name is
  \<^verbatim>\<open>deelroute.gpx\<close> whatever its ordinal, so two such tracks of one input are written
  to the same path.
\<close>

theorem blank_names_collide:
  assumes "find_child (qname GPX_NS ''name'') track1 = Some name1"
    and "elem_text name1 = Some t1" and "t1 \<noteq> []" and "\<forall>c\<in>set t1. is_space c"
    and "find_child (qname GPX_NS ''name'') track2 = Some name2"
    and "elem_text name2 = Some t2" and "t2 \<noteq> []" and "\<forall>c\<in>set t2. is_space c"
  shows "track_name track1 idx1 = [] \<and>
         track_name track1 idx1 \<noteq> ''deelroute_'' @ decimal idx1 \<and>
         track_filename track1 idx1 = ''deelroute.gpx'' \<and>
         track_filename track2 idx2 = ''deelroute.gpx'' \<and>
         path_join folder (track_filename track1 idx1) =
           path_join folder (track_filename track2 idx2)"
  using blank_name_filename [OF assms(1-4)] blank_name_filename [OF assms(5-8)]
  by simp

theorem blank_names_collide_witness:
  "track_filename
     (Elem (qname GPX_NS ''trk'') [] None None
        [Elem (qname GPX_NS ''name'') [] (Some '' '') None []]) 1 = ''deelroute.gpx'' \<and>
   track_filename
     (Elem (qname GPX_NS ''trk'') [] None None
        [Elem (qname GPX_NS ''name'') [] (Some [CHR 0x09, CHR '' '']) None []]) 2 =
     ''deelroute.gpx''"
proof -
  let ?n1 = "Elem (qname GPX_NS ''name'') [] (Some '' '') None []"
  let ?n2 = "Elem (qname GPX_NS ''name'') [] (Some [CHR 0x09, CHR '' '']) None []"
  let ?t1 = "Elem (qname GPX_NS ''trk'') [] None None [?n1]"
  let ?t2 = "Elem (qname GPX_NS ''trk'') [] None None [?n2]"
  have a: "find_child (qname GPX_NS ''name'') ?t1 = Some ?n1"
    by (simp add: find_child_def)
  have b: "find_child (qname GPX_NS ''name'') ?t2 = Some ?n2"
    by (simp add: find_child_def)
  have c: "\<forall>c\<in>set '' ''. is_space c"
    by (simp add: is_space_def)
  have d: "\<forall>c\<in>set [CHR 0x09, CHR '' '']. is_space c"
    by (simp add: is_space_def)
  show ?thesis
    using blank_names_collide [OF a _ _ c b _ _ d, of 1 2] by simp
qed

subsection \<open>Floats\<close>

lemma bitlen_numeral:
  "bitlen 1 = 1"
  "bitlen (numeral Num.One) = 1"
  "bitlen (numeral (Num.Bit0 n)) = bitlen (numeral n) + 1"
  "bitlen (numeral (Num.Bit1 n)) = bitlen (numeral n) + 1"
  using compute_bitlen [of 1] compute_bitlen [of "numeral (Num.Bit0 n)"]
    compute_bitlen [of "numeral (Num.Bit1 n)"]
  by simp_all

lemma floor_rat_numeral:
  "\<lfloor>numeral a / numeral b :: rat\<rfloor> = numeral a div numeral b"
  "\<lfloor>1 / numeral b :: rat\<rfloor> = 1 div numeral b"
  using floor_divide_of_int_eq [of "numeral a" "numeral b", where ?'a = rat]
    floor_divide_of_int_eq [of 1 "numeral b", where ?'a = rat]
  by simp_all

lemma ceiling_rat_numeral:
  "\<lceil>numeral a / numeral b :: rat\<rceil> = - (- numeral a div numeral b)"
  "\<lceil>1 / numeral b :: rat\<rceil> = - (- 1 div numeral b)"
  using floor_divide_of_int_eq [of "- numeral a" "numeral b", where ?'a = rat]
    floor_divide_of_int_eq [of "- 1" "numeral b", where ?'a = rat]
  by (simp_all add: ceiling_def)

text \<open>An integer below \<open>2 ^ 53\<close> is a float: rounding leaves it as it is.\<close>

lemma rnd64_of_nat:
  assumes "n < 2 ^ 53"
  shows "rnd64 (of_nat n) = of_nat n"
proof (cases "n = 0")
  case True
  then show ?thesis by (simp add: rnd64_def)
next
  case False
  define e where "e = bitlen (int n) - 1"
  have pos: "0 < int n" using False by simp
  have "bitlen (int n) \<le> 53"
    using assms bitlen_le_iff_power [of "int n" 53] by (simp add: of_nat_less_numeral_power_cancel_iff)
  moreover have "1 \<le> bitlen (int n)"
    using pos by (simp add: bitlen_alt_def)
  ultimately have e: "0 \<le> e" "e \<le> 52"
    by (simp_all add: e_def)
  have il: "ilog2 (of_nat n) = e"
    using False by (simp add: ilog2_def e_def)
  define k where "k = nat (52 - e)"
  have u: "pow2 (max e (- 1022) - 52) = (if e = 52 then 1 else 1 / 2 ^ k)"
    using e by (auto simp: pow2_def k_def max_def)
  have ek: "e = 52 \<Longrightarrow> k = 0" by (simp add: k_def)
  have "of_nat n / pow2 (max e (- 1022) - 52) = (of_int (int n * 2 ^ k) :: rat)"
    using u ek by (cases "e = 52") simp_all
  then have r: "round_half_even (of_nat n / pow2 (max e (- 1022) - 52)) = int n * 2 ^ k"
    unfolding round_half_even_def Let_def
    by (simp only: floor_of_int) simp
  have "rnd64 (of_nat n) = of_int (int n * 2 ^ k) * pow2 (max e (- 1022) - 52)"
    using False by (simp add: rnd64_def il Let_def r)
  also have "\<dots> = of_nat n"
    using u ek by (cases "e = 52") simp_all
  finally show ?thesis .
qed

lemma rnd64_small:
  "rnd64 0 = 0"
  "rnd64 1 = 1"
  "numeral v < (2 :: nat) ^ 53 \<Longrightarrow> rnd64 (numeral v) = numeral v"
  using rnd64_of_nat [of 1] rnd64_of_nat [of "numeral v"]
  by (simp_all add: rnd64_def)

lemmas float_eval =
  rnd64_def ilog2_def pow2_def round_half_even_def Let_def fadd_def fsub_def fmul_def fdiv_def
  trunc_def

subsection \<open>Bounds\<close>

lemma py_min_eq_Min: "py_min x xs = Min (set (x # xs))"
proof -
  have "(\<lambda>m y. if y < m then y else m) = (\<lambda>m y :: 'a. min y m)"
    by (auto simp: fun_eq_iff min_def)
  then have "py_min x xs = fold min xs x"
    by (simp add: py_min_def foldl_conv_fold)
  with Min.set_eq_fold [of x xs] show ?thesis
    by simp
qed

lemma py_max_eq_Max: "py_max x xs = Max (set (x # xs))"
proof -
  have "(\<lambda>m y. if m < y then y else m) = (\<lambda>m y :: 'a. max y m)"
    by (auto simp: fun_eq_iff max_def)
  then have "py_max x xs = fold max xs x"
    by (simp add: py_max_def foldl_conv_fold)
  with Max.set_eq_fold [of x xs] show ?thesis
    by simp
qed

lemma py_min_le_py_max: "py_min x xs \<le> py_max x xs"
proof -
  have "Min (set (x # xs)) \<le> x" and "x \<le> Max (set (x # xs))"
    by simp_all
  then show ?thesis
    unfolding py_min_eq_Min py_max_eq_Max by (rule order_trans)
qed

text \<open>The loop over the points, one point at a time.\<close>

lemma collect_points_snoc:
  "collect_points pyfloat (pts @ [pt]) = collect_point pyfloat (collect_points pyfloat pts) pt"
  by (simp add: collect_points_def)

lemma collect_point_acc:
  "collect_point pyfloat (la @ a, lo @ b) pt =
     (la @ fst (collect_point pyfloat (a, b) pt), lo @ snd (collect_point pyfloat (a, b) pt))"
  by (simp add: collect_point_def split: option.splits)

lemma foldl_collect_acc:
  "foldl (collect_point pyfloat) (la, lo) pts =
     (la @ fst (collect_points pyfloat pts), lo @ snd (collect_points pyfloat pts))"
proof (induction pts rule: rev_induct)
  case Nil
  then show ?case by (simp add: collect_points_def)
next
  case (snoc pt pts)
  obtain a b where c: "collect_points pyfloat pts = (a, b)"
    by (cases "collect_points pyfloat pts")
  show ?case
    using snoc.IH by (simp add: collect_points_snoc c collect_point_acc)
qed

lemma collect_points_append:
  "collect_points pyfloat (ps @ qs) =
     (fst (collect_points pyfloat ps) @ fst (collect_points pyfloat qs),
      snd (collect_points pyfloat ps) @ snd (collect_points pyfloat qs))"
proof -
  have "collect_points pyfloat (ps @ qs) =
        foldl (collect_point pyfloat) (collect_points pyfloat ps) qs"
    by (simp add: collect_points_def)
  then show ?thesis
    using foldl_collect_acc [of pyfloat "fst (collect_points pyfloat ps)"
        "snd (collect_points pyfloat ps)" qs]
    by simp
qed

lemma collect_points_single:
  "collect_points pyfloat [pt] = collect_point pyfloat ([], []) pt"
  by (simp add: collect_points_def)

text \<open>A point that lacks \<^verbatim>\<open>lat\<close> or \<^verbatim>\<open>lon\<close>, or has it empty, is passed over.\<close>

lemma collect_point_skip:
  assumes "get_attr ''lat'' pt = None \<or> get_attr ''lat'' pt = Some [] \<or>
           get_attr ''lon'' pt = None \<or> get_attr ''lon'' pt = Some []"
  shows "collect_point pyfloat acc pt = acc"
  using assms by (auto simp: collect_point_def split: option.splits)

text \<open>
  Claim C9: a track point whose \<^verbatim>\<open>lat\<close> or \<^verbatim>\<open>lon\<close> attribute is absent or empty
  is skipped before any parse: the turn of the loop leaves both lists as they are,
  whatever \<^verbatim>\<open>float\<close> would do on the attribute values, and the bounds of the track
  are those of the other points. (The model has no error value here: the turn returns.)
\<close>

theorem missing_lat_lon_skipped:
  assumes "get_attr ''lat'' pt = None \<or> get_attr ''lat'' pt = Some [] \<or>
           get_attr ''lon'' pt = None \<or> get_attr ''lon'' pt = Some []"
  shows "collect_point pyfloat acc pt = acc \<and>
         collect_points pyfloat (ps @ pt # qs) = collect_points pyfloat (ps @ qs) \<and>
         (findall_desc (qname GPX_NS ''trkpt'') track_elem = ps @ pt # qs \<longrightarrow>
            calculate_bounds pyfloat track_elem = bounds_of (collect_points pyfloat (ps @ qs)))"
proof -
  have skip: "collect_point pyfloat acc pt = acc" for acc
    using assms by (rule collect_point_skip)
  have "collect_points pyfloat (pt # qs) = collect_points pyfloat qs"
    by (simp add: collect_points_def skip)
  then have eq: "collect_points pyfloat (ps @ pt # qs) = collect_points pyfloat (ps @ qs)"
    by (simp add: collect_points_append)
  show ?thesis
    using skip eq by (simp add: calculate_bounds_def)
qed

theorem missing_lat_lon_skipped_witness:
  "get_attr ''lon'' (sample_trkpt ''50'' []) = Some [] \<and>
   collect_point float_plain ([1], [2]) (sample_trkpt ''50'' []) = ([1], [2]) \<and>
   calculate_bounds float_plain
     (sample_trk [sample_trkpt ''10'' ''20'', sample_trkpt ''50'' [], sample_trkpt ''12'' ''18'']) =
   bounds_of (collect_points float_plain [sample_trkpt ''10'' ''20'', sample_trkpt ''12'' ''18''])"
proof -
  let ?pt = "sample_trkpt ''50'' []"
  let ?ps = "[sample_trkpt ''10'' ''20'']"
  let ?qs = "[sample_trkpt ''12'' ''18'']"
  have h: "get_attr ''lat'' ?pt = None \<or> get_attr ''lat'' ?pt = Some [] \<or>
           get_attr ''lon'' ?pt = None \<or> get_attr ''lon'' ?pt = Some []"
    by (simp add: sample_trkpt_def get_attr_def)
  have d: "findall_desc (qname GPX_NS ''trkpt'') (sample_trk (?ps @ ?pt # ?qs)) = ?ps @ ?pt # ?qs"
    by (simp add: sample_trk_def sample_trkpt_def findall_desc_def qname_def)
  show ?thesis
    using missing_lat_lon_skipped [OF h, of float_plain "([1], [2])" ?ps ?qs
        "sample_trk (?ps @ ?pt # ?qs)"] d
    by (simp add: sample_trkpt_def get_attr_def)
qed

text \<open>What the loop collects, in the terms of the specification.\<close>

lemma collect_point_lons:
  "snd (collect_point pyfloat ([], []) pt) =
     (case valid_coords pyfloat pt of None \<Rightarrow> [] | Some (a, b) \<Rightarrow> [b])"
  by (simp add: collect_point_def valid_coords_def split: option.splits)

lemma collect_point_lats:
  "\<not> half_parsed pyfloat pt \<Longrightarrow>
   fst (collect_point pyfloat ([], []) pt) =
     (case valid_coords pyfloat pt of None \<Rightarrow> [] | Some (a, b) \<Rightarrow> [a])"
  by (auto simp: collect_point_def valid_coords_def half_parsed_def split: option.splits)

lemma collect_points_Cons:
  "collect_points pyfloat (pt # pts) =
     (fst (collect_point pyfloat ([], []) pt) @ fst (collect_points pyfloat pts),
      snd (collect_point pyfloat ([], []) pt) @ snd (collect_points pyfloat pts))"
  using collect_points_append [of pyfloat "[pt]" pts]
  by (simp add: collect_points_single)

lemma collect_points_lons:
  "snd (collect_points pyfloat pts) = map snd (List.map_filter (valid_coords pyfloat) pts)"
proof (induction pts)
  case Nil
  then show ?case by (simp add: collect_points_def List.map_filter_simps)
next
  case (Cons pt pts)
  then show ?case
    by (simp add: collect_points_Cons collect_point_lons List.map_filter_simps
        split: option.splits)
qed

lemma collect_points_lats:
  "\<forall>pt\<in>set pts. \<not> half_parsed pyfloat pt \<Longrightarrow>
   fst (collect_points pyfloat pts) = map fst (List.map_filter (valid_coords pyfloat) pts)"
proof (induction pts)
  case Nil
  then show ?case by (simp add: collect_points_def List.map_filter_simps)
next
  case (Cons pt pts)
  then show ?case
    by (simp add: collect_points_Cons collect_point_lats List.map_filter_simps
        split: option.splits)
qed

lemma collect_point_lengths:
  "length (snd (collect_point pyfloat ([], []) pt)) \<le>
   length (fst (collect_point pyfloat ([], []) pt))"
  by (simp add: collect_point_def split: option.splits)

lemma collect_points_lengths:
  "length (snd (collect_points pyfloat pts)) \<le> length (fst (collect_points pyfloat pts))"
proof (induction pts)
  case Nil
  then show ?case by (simp add: collect_points_def)
next
  case (Cons pt pts)
  then show ?case
    using collect_point_lengths [of pyfloat pt]
    by (simp add: collect_points_Cons)
qed

lemma bounds_of_None_iff: "bounds_of (lats, lons) = None \<longleftrightarrow> lats = [] \<or> lons = []"
  by (simp add: bounds_of_def split: list.splits)

text \<open>
  The parts of claim C5 that hold on every track: a box is produced exactly when the
  track has a valid point, its minima are not above its maxima, and it becomes the first
  child of the track, ahead of the children the track had.
\<close>

lemma calculate_bounds_None_iff:
  "calculate_bounds pyfloat track_elem = None \<longleftrightarrow>
   List.map_filter (valid_coords pyfloat) (findall_desc (qname GPX_NS ''trkpt'') track_elem) = []"
proof -
  let ?pts = "findall_desc (qname GPX_NS ''trkpt'') track_elem"
  let ?c = "collect_points pyfloat ?pts"
  have "calculate_bounds pyfloat track_elem = None \<longleftrightarrow> fst ?c = [] \<or> snd ?c = []"
    using bounds_of_None_iff [of "fst ?c" "snd ?c"] by (simp add: calculate_bounds_def)
  also have "\<dots> \<longleftrightarrow> snd ?c = []"
    using collect_points_lengths [of pyfloat ?pts] by auto
  also have "\<dots> \<longleftrightarrow> List.map_filter (valid_coords pyfloat) ?pts = []"
    by (simp add: collect_points_lons)
  finally show ?thesis .
qed

lemma spec_bounds_None_iff:
  "spec_bounds pyfloat track_elem = None \<longleftrightarrow> calculate_bounds pyfloat track_elem = None"
  by (simp add: calculate_bounds_None_iff spec_bounds_def split: list.splits)

lemma calculate_bounds_ordered:
  assumes "calculate_bounds pyfloat track_elem = Some (minlat, minlon, maxlat, maxlon)"
  shows "minlat \<le> maxlat \<and> minlon \<le> maxlon"
  using assms py_min_le_py_max
  by (auto simp: calculate_bounds_def bounds_of_def split: prod.splits list.splits)

lemma add_bounds_first_child:
  "children (add_bounds fmt track_elem (Some (minlat, minlon, maxlat, maxlon))) =
     Element_attrib ''bounds''
       [(''minlat'', fmt minlat), (''minlon'', fmt minlon),
        (''maxlat'', fmt maxlat), (''maxlon'', fmt maxlon)] # children track_elem"
  by (simp add: add_bounds_def insert_first_def set_children_def)

lemma add_bounds_None: "add_bounds fmt track_elem None = track_elem"
  by (simp add: add_bounds_def)

text \<open>
  On a track without a half-parsed point the script computes the box of the
  specification.
\<close>

lemma calculate_bounds_spec:
  assumes "\<forall>pt\<in>set (findall_desc (qname GPX_NS ''trkpt'') track_elem). \<not> half_parsed pyfloat pt"
  shows "calculate_bounds pyfloat track_elem = spec_bounds pyfloat track_elem"
proof -
  let ?pts = "findall_desc (qname GPX_NS ''trkpt'') track_elem"
  let ?vs = "List.map_filter (valid_coords pyfloat) ?pts"
  have c: "collect_points pyfloat ?pts = (map fst ?vs, map snd ?vs)"
    using collect_points_lats [OF assms] collect_points_lons [of pyfloat ?pts]
    by (simp add: prod_eq_iff)
  show ?thesis
  proof (cases ?vs)
    case Nil
    then show ?thesis
      by (simp add: calculate_bounds_def c spec_bounds_def bounds_of_def)
  next
    case (Cons p ps)
    have "set (map fst (p # ps)) = fst ` set (p # ps)" and "set (map snd (p # ps)) = snd ` set (p # ps)"
      by simp_all
    then show ?thesis
      unfolding calculate_bounds_def c spec_bounds_def Cons
      by (simp add: bounds_of_def py_min_eq_Min py_max_eq_Max)
  qed
qed

lemmas bounds_eval =
  calculate_bounds_def findall_desc_def collect_points_def collect_point_def bounds_of_def
  py_min_def py_max_def get_attr_def sample_trk_def sample_trkpt_def qname_def
  float_plain_def unsigned_plain_def digit_of_def

text \<open>The example of the specification: points (10, 20) and (12, 18).\<close>

lemma calculate_bounds_example:
  "calculate_bounds float_plain (sample_trk [sample_trkpt ''10'' ''20'', sample_trkpt ''12'' ''18''])
     = Some (10, 18, 12, 20)"
  by (simp add: bounds_eval rnd64_small)

text \<open>A point whose \<^verbatim>\<open>lat\<close> does not parse leaves both lists as they are.\<close>

lemma unparsed_lat_skipped:
  assumes "get_attr ''lat'' pt = Some lat" and "pyfloat lat = None"
  shows "collect_point pyfloat acc pt = acc"
  using assms by (simp add: collect_point_def split: option.splits)

text \<open>
  Claim C3 at the input where the script departs from it: a track with the points
  \<^verbatim>\<open>(lat="50", lon="abc")\<close> and \<^verbatim>\<open>(lat="10", lon="20")\<close>. The \<^verbatim>\<open>lon\<close> of the
  first point does not parse, yet its \<^verbatim>\<open>lat\<close> is the maximum latitude of the box;
  without that point the maximum is 10.
\<close>

theorem unparsed_lon_lat_in_bounds:
  "float_plain ''abc'' = None \<and>
   calculate_bounds float_plain
     (sample_trk [sample_trkpt ''50'' ''abc'', sample_trkpt ''10'' ''20'']) =
     Some (10, 20, 50, 20) \<and>
   calculate_bounds float_plain (sample_trk [sample_trkpt ''10'' ''20'']) =
     Some (10, 20, 10, 20)"
  by (simp add: bounds_eval rnd64_small)

text \<open>
  Claim C5 at the input where the script departs from it: the points (10, 20) and
  (12, 18) of the specification's example and a third point \<^verbatim>\<open>(lat="99", lon="x")\<close>.
  The valid points give the box (10, 18, 12, 20); the script returns the maximum
  latitude 99.
\<close>

theorem bounds_not_of_valid_points:
  "calculate_bounds float_plain
     (sample_trk [sample_trkpt ''10'' ''20'', sample_trkpt ''12'' ''18'', sample_trkpt ''99'' ''x'']) =
     Some (10, 18, 99, 20) \<and>
   spec_bounds float_plain
     (sample_trk [sample_trkpt ''10'' ''20'', sample_trkpt ''12'' ''18'', sample_trkpt ''99'' ''x'']) =
     Some (10, 18, 12, 20)"
  by (simp add: bounds_eval rnd64_small spec_bounds_def valid_coords_def List.map_filter_simps)

subsection \<open>Colour injection\<close>

lemma tag_set_text [simp]: "tag (set_text s e) = tag e"
  by (simp add: set_text_def)

lemma set_text_set_text [simp]: "set_text s' (set_text s e) = set_text s' e"
  by (simp add: set_text_def)

lemma elem_text_set_text [simp]: "elem_text (set_text s e) = Some s"
  by (simp add: set_text_def)

lemma children_set_children [simp]: "children (set_children cs e) = cs"
  by (simp add: set_children_def)

lemma tag_set_children [simp]: "tag (set_children cs e) = tag e"
  by (simp add: set_children_def)

lemma set_children_set_children [simp]: "set_children cs' (set_children cs e) = set_children cs' e"
  by (simp add: set_children_def)

text \<open>Updating the first match of a list.\<close>

lemma find_append_single:
  "List.find P (xs @ [y]) =
     (case List.find P xs of None \<Rightarrow> if P y then Some y else None | Some x \<Rightarrow> Some x)"
  by (induction xs) auto

lemma update_first_append_single:
  "List.find P xs = None \<Longrightarrow> update_first P f (xs @ [y]) = xs @ [if P y then f y else y]"
  by (induction xs) (auto split: if_splits)

lemma find_update_first:
  "(\<And>x. P (f x) = P x) \<Longrightarrow> List.find P (update_first P f xs) = map_option f (List.find P xs)"
  by (induction xs) auto

lemma update_first_twice:
  "(\<And>x. P (f x) = P x) \<Longrightarrow>
   update_first P g (update_first P f xs) = update_first P (\<lambda>x. g (f x)) xs"
  by (induction xs) auto

lemma update_first_split:
  "List.find P xs = Some x \<Longrightarrow>
   \<exists>pre post. xs = pre @ x # post \<and> (\<forall>y\<in>set pre. \<not> P y) \<and>
     update_first P f xs = pre @ f x # post"
proof (induction xs)
  case Nil
  then show ?case by simp
next
  case (Cons a xs)
  show ?case
  proof (cases "P a")
    case True
    with Cons.prems have "a = x" by simp
    with True show ?thesis by (intro exI [of _ "[]"] exI [of _ xs]) simp
  next
    case False
    with Cons.prems have "List.find P xs = Some x" by simp
    from Cons.IH [OF this] obtain pre post where
      "xs = pre @ x # post" "\<forall>y\<in>set pre. \<not> P y" "update_first P f xs = pre @ f x # post"
      by blast
    with False show ?thesis
      by (intro exI [of _ "a # pre"] exI [of _ post]) simp
  qed
qed

text \<open>The generic encoding: the second run overwrites what the first one wrote.\<close>

lemma tag_std_display_color [simp]: "tag (std_display_color c e) = tag e"
  by (simp add: std_display_color_def append_child_def update_child_def split: option.splits)

lemma std_display_color_twice:
  "std_display_color c' (std_display_color c e) = std_display_color c' e"
proof (cases "find_child ''display_color'' e")
  case None
  then have n: "List.find (\<lambda>x. tag x = ''display_color'') (children e) = None"
    by (simp add: find_child_def)
  have "find_child ''display_color'' (std_display_color c e) =
        Some (set_text c (Element ''display_color''))"
    using n by (simp add: std_display_color_def find_child_def append_child_def
        find_append_single Element_def)
  then show ?thesis
    using n
    by (simp add: std_display_color_def find_child_def append_child_def update_child_def
        update_first_append_single Element_def)
next
  case (Some d)
  then have s: "List.find (\<lambda>x. tag x = ''display_color'') (children e) = Some d"
    by (simp add: find_child_def)
  have "find_child ''display_color'' (std_display_color c e) = Some (set_text c d)"
    using s by (simp add: std_display_color_def find_child_def update_child_def find_update_first)
  then show ?thesis
    using s
    by (simp add: std_display_color_def find_child_def update_child_def update_first_twice)
qed

lemma add_standard_display_color_twice:
  "add_standard_display_color (add_standard_display_color t c) c' =
   add_standard_display_color t c'"
proof (cases "find_child ''extensions'' t")
  case None
  then have n: "List.find (\<lambda>x. tag x = ''extensions'') (children t) = None"
    by (simp add: find_child_def)
  have "find_child ''extensions'' (add_standard_display_color t c) =
        Some (std_display_color c (Element ''extensions''))"
    using n by (simp add: add_standard_display_color_def find_child_def append_child_def
        find_append_single Element_def)
  then show ?thesis
    using n
    by (simp add: add_standard_display_color_def find_child_def append_child_def
        update_child_def update_first_append_single std_display_color_twice Element_def)
next
  case (Some e)
  then have s: "List.find (\<lambda>x. tag x = ''extensions'') (children t) = Some e"
    by (simp add: find_child_def)
  have "find_child ''extensions'' (add_standard_display_color t c) =
        Some (std_display_color c e)"
    using s by (simp add: add_standard_display_color_def find_child_def update_child_def
        find_update_first)
  then show ?thesis
    using s
    by (simp add: add_standard_display_color_def find_child_def update_child_def
        update_first_twice std_display_color_twice)
qed

text \<open>After the injection the display colour that the script looks up is the injected one.\<close>

lemma std_display_color_found:
  "\<exists>d. find_child ''display_color'' (std_display_color c e) = Some d \<and> elem_text d = Some c"
proof (cases "find_child ''display_color'' e")
  case None
  then show ?thesis
    by (simp add: std_display_color_def find_child_def append_child_def find_append_single
        Element_def)
next
  case (Some d)
  then show ?thesis
    by (simp add: std_display_color_def find_child_def update_child_def find_update_first)
qed

lemma add_standard_display_color_found:
  "\<exists>e d. find_child ''extensions'' (add_standard_display_color t c) = Some e \<and>
     find_child ''display_color'' e = Some d \<and> elem_text d = Some c"
proof (cases "find_child ''extensions'' t")
  case None
  then have "find_child ''extensions'' (add_standard_display_color t c) =
             Some (std_display_color c (Element ''extensions''))"
    by (simp add: add_standard_display_color_def find_child_def append_child_def
        find_append_single Element_def)
  then show ?thesis
    using std_display_color_found by simp
next
  case (Some e)
  then have "find_child ''extensions'' (add_standard_display_color t c) =
             Some (std_display_color c e)"
    by (simp add: add_standard_display_color_def find_child_def update_child_def
        find_update_first)
  then show ?thesis
    using std_display_color_found by simp
qed

text \<open>The vendor encoding. Whether a descendant is found does not depend on the colour.\<close>

lemma set_text_first_desc_None_any:
  "set_text_first_desc tg s cs = None \<Longrightarrow> set_text_first_desc tg s' cs = None"
  by (induction tg s cs rule: set_text_first_desc.induct)
    (auto split: if_splits option.splits)

lemma set_text_first_desc_again:
  "set_text_first_desc tg s cs = Some cs' \<Longrightarrow>
   set_text_first_desc tg s' cs' = set_text_first_desc tg s' cs \<and>
   set_text_first_desc tg s' cs \<noteq> None"
proof (induction tg s cs arbitrary: cs' rule: set_text_first_desc.induct)
  case (1 tg s)
  then show ?case by simp
next
  case (2 tg s t attrs tx ta cs rest)
  show ?case
  proof (cases "t = tg")
    case True
    with "2.prems" show ?thesis by auto
  next
    case False
    show ?thesis
    proof (cases "set_text_first_desc tg s cs")
      case (Some ds)
      from "2.IH"(1) [OF False Some] "2.prems" False Some show ?thesis
        by (auto split: option.splits)
    next
      case None
      then have n: "set_text_first_desc tg s' cs = None"
        by (rule set_text_first_desc_None_any)
      from "2.prems" False None obtain rest' where
        r: "set_text_first_desc tg s rest = Some rest'" and
        c: "cs' = Elem t attrs tx ta cs # rest'"
        by (auto split: option.splits)
      from "2.IH"(2) [OF False None r] False n c show ?thesis
        by (auto split: option.splits)
    qed
  qed
qed

lemma set_text_first_desc_append:
  "set_text_first_desc tg s cs = None \<Longrightarrow>
   set_text_first_desc tg s' (cs @ ds) = map_option ((@) cs) (set_text_first_desc tg s' ds)"
proof (induction tg s cs rule: set_text_first_desc.induct)
  case (1 tg s)
  then show ?case by (simp add: option.map_ident)
next
  case (2 tg s t attrs tx ta cs rest)
  from "2.prems" have f: "t \<noteq> tg" and c: "set_text_first_desc tg s cs = None"
    and r: "set_text_first_desc tg s rest = None"
    by (auto split: if_splits option.splits)
  have c': "set_text_first_desc tg s' cs = None"
    using c by (rule set_text_first_desc_None_any)
  show ?case
    using f c' "2.IH"(2) [OF f c r]
    by (cases "set_text_first_desc tg s' ds") simp_all
qed

lemma set_text_first_desc_block:
  "set_text_first_desc (qname GARMIN_GPXX_NS ''DisplayColor'') s' [gpxt_block s] =
     Some [gpxt_block s']"
  by (simp add: gpxt_block_def append_child_def set_children_def set_text_def Element_def
      qname_def GARMIN_GPXX_NS_def GPX_NS_def)

lemma add_or_update_gpxt_display_color_twice:
  "add_or_update_gpxt_display_color (add_or_update_gpxt_display_color t c) c' =
   add_or_update_gpxt_display_color t c'"
proof (cases "set_text_first_desc (qname GARMIN_GPXX_NS ''DisplayColor'') c (children t)")
  case None
  then have n': "set_text_first_desc (qname GARMIN_GPXX_NS ''DisplayColor'') c' (children t) = None"
    by (rule set_text_first_desc_None_any)
  show ?thesis
    using None n' set_text_first_desc_append [OF None, of c' "[gpxt_block c]"]
    by (simp add: add_or_update_gpxt_display_color_def append_child_def
        set_text_first_desc_block)
next
  case (Some cs')
  from set_text_first_desc_again [OF Some, of c'] Some show ?thesis
    by (auto simp: add_or_update_gpxt_display_color_def)
qed

text \<open>The descendant that \<^verbatim>\<open>find\<close> returns is the one whose text is replaced.\<close>

lemma descendants_children:
  "descendants e = concat (map (\<lambda>c. c # descendants c) (children e))"
  by (cases e) simp

lemma find_concat_Cons:
  "List.find P (xs @ ys) = (case List.find P xs of None \<Rightarrow> List.find P ys | Some x \<Rightarrow> Some x)"
  by (induction xs) auto

lemma set_text_first_desc_find:
  "(case set_text_first_desc tg s cs of
      None \<Rightarrow> List.find (\<lambda>c. tag c = tg) (concat (map (\<lambda>c. c # descendants c) cs)) = None
    | Some cs' \<Rightarrow>
        \<exists>d. List.find (\<lambda>c. tag c = tg) (concat (map (\<lambda>c. c # descendants c) cs')) = Some d \<and>
          elem_text d = Some s)"
proof (induction tg s cs rule: set_text_first_desc.induct)
  case (1 tg s)
  then show ?case by simp
next
  case (2 tg s t attrs tx ta cs rest)
  show ?case
  proof (cases "t = tg")
    case True
    then show ?thesis by simp
  next
    case False
    show ?thesis
    proof (cases "set_text_first_desc tg s cs")
      case (Some ds)
      with "2.IH"(1) [OF False] False show ?thesis
        by (auto simp: find_concat_Cons)
    next
      case None
      with "2.IH"(1) [OF False] "2.IH"(2) [OF False None] False show ?thesis
        by (auto simp: find_concat_Cons split: option.splits)
    qed
  qed
qed

lemma add_or_update_gpxt_display_color_found:
  "\<exists>d. find_desc (qname GARMIN_GPXX_NS ''DisplayColor'') (add_or_update_gpxt_display_color t c)
        = Some d \<and> elem_text d = Some c"
proof (cases "set_text_first_desc (qname GARMIN_GPXX_NS ''DisplayColor'') c (children t)")
  case None
  with set_text_first_desc_find [where tg = "qname GARMIN_GPXX_NS ''DisplayColor''" and s = c
      and cs = "children t"]
  have "List.find (\<lambda>c. tag c = qname GARMIN_GPXX_NS ''DisplayColor'')
          (concat (map (\<lambda>c. c # descendants c) (children t))) = None"
    by simp
  then show ?thesis
    using None
    by (simp add: add_or_update_gpxt_display_color_def find_desc_def append_child_def
        descendants_children [of "set_children _ _"] find_concat_Cons gpxt_block_def
        set_children_def set_text_def Element_def qname_def GARMIN_GPXX_NS_def GPX_NS_def)
next
  case (Some cs')
  with set_text_first_desc_find [where tg = "qname GARMIN_GPXX_NS ''DisplayColor''" and s = c
      and cs = "children t"]
  show ?thesis
    by (simp add: add_or_update_gpxt_display_color_def find_desc_def
        descendants_children [of "set_children _ _"])
qed

text \<open>Counting the elements with a tag.\<close>

lemma length_filter_concat_map:
  "length (filter P (concat (map f cs))) = sum_list (map (\<lambda>c. length (filter P (f c))) cs)"
  by (induction cs) auto

lemma count_tag_children:
  "count_tag tg e =
     sum_list (map (\<lambda>c. (if tag c = tg then 1 else 0) + count_tag tg c) (children e))"
proof -
  have "count_tag tg e =
        sum_list (map (\<lambda>c. length (filter (\<lambda>d. tag d = tg) (c # descendants c))) (children e))"
    unfolding count_tag_def findall_desc_def descendants_children [of e]
    by (rule length_filter_concat_map)
  also have "\<dots> =
        sum_list (map (\<lambda>c. (if tag c = tg then 1 else 0) + count_tag tg c) (children e))"
    by (intro arg_cong [where f = sum_list] map_cong refl)
      (simp add: count_tag_def findall_desc_def)
  finally show ?thesis .
qed

lemma count_tag_Elem:
  "count_tag tg (Elem t attrs tx ta cs) =
     sum_list (map (\<lambda>c. (if tag c = tg then 1 else 0) + count_tag tg c) cs)"
  using count_tag_children [of tg "Elem t attrs tx ta cs"] by simp

lemma count_tag_set_children:
  "count_tag tg (set_children cs e) =
     sum_list (map (\<lambda>c. (if tag c = tg then 1 else 0) + count_tag tg c) cs)"
  by (simp add: set_children_def count_tag_Elem)

lemma count_tag_set_text [simp]: "count_tag tg (set_text s e) = count_tag tg e"
  using count_tag_children [of tg e] by (simp add: set_text_def count_tag_Elem)

lemma count_tag_leaf [simp]: "count_tag tg (Element t) = 0"
  by (simp add: Element_def count_tag_Elem)

lemma tag_Element [simp]: "tag (Element t) = t"
  by (simp add: Element_def)

lemma count_tag_append_child:
  "count_tag tg (append_child c e) = count_tag tg e + ((if tag c = tg then 1 else 0) + count_tag tg c)"
  using count_tag_children [of tg e] by (simp add: append_child_def count_tag_set_children)

lemma count_tag_update_child:
  assumes "find_child t e = Some x"
  shows "count_tag tg (update_child t f e) + ((if tag x = tg then 1 else 0) + count_tag tg x) =
         count_tag tg e + ((if tag (f x) = tg then 1 else 0) + count_tag tg (f x))"
proof -
  from assms have "List.find (\<lambda>c. tag c = t) (children e) = Some x"
    by (simp add: find_child_def)
  from update_first_split [OF this, of f] obtain pre post where
    "children e = pre @ x # post" "update_first (\<lambda>c. tag c = t) f (children e) = pre @ f x # post"
    by blast
  then show ?thesis
    using count_tag_children [of tg e]
    by (simp add: update_child_def count_tag_set_children)
qed

lemma count_tag_zero_child:
  assumes "count_tag tg e = 0" and "c \<in> set (children e)"
  shows "tag c \<noteq> tg \<and> count_tag tg c = 0"
proof -
  have "sum_list (map (\<lambda>c. (if tag c = tg then 1 else 0) + count_tag tg c) (children e)) = 0"
    using assms(1) count_tag_children [of tg e] by simp
  then have "(if tag c = tg then 1 else 0) + count_tag tg c = (0::nat)"
    using assms(2) by (simp add: sum_list_eq_0_iff)
  then show ?thesis
    by (simp split: if_splits)
qed

lemma find_child_Some_mem: "find_child t e = Some x \<Longrightarrow> x \<in> set (children e) \<and> tag x = t"
  by (auto simp: find_child_def find_Some_iff)

lemma find_child_None_zero:
  "count_tag tg e = 0 \<Longrightarrow> find_child tg e = None"
  using count_tag_zero_child [of tg e] by (auto simp: find_child_def find_None_iff)

text \<open>Once the display colour is there, an injection changes no count.\<close>

lemma count_std_display_color_existing:
  assumes "find_child ''display_color'' e = Some d"
  shows "count_tag tg (std_display_color c e) = count_tag tg e"
  using count_tag_update_child [OF assms, of tg "set_text c"] assms
  by (simp add: std_display_color_def)

lemma count_add_standard_existing:
  assumes "find_child ''extensions'' t = Some e" and "find_child ''display_color'' e = Some d"
  shows "count_tag tg (add_standard_display_color t c) = count_tag tg t"
  using count_tag_update_child [OF assms(1), of tg "std_display_color c"] assms
    count_std_display_color_existing [OF assms(2), of tg c]
  by (simp add: add_standard_display_color_def)

lemma count_add_standard_twice:
  "count_tag tg (add_standard_display_color (add_standard_display_color t c) c') =
   count_tag tg (add_standard_display_color t c)"
proof -
  obtain e d where "find_child ''extensions'' (add_standard_display_color t c) = Some e"
    and "find_child ''display_color'' e = Some d"
    using add_standard_display_color_found [of t c] by blast
  then show ?thesis
    by (rule count_add_standard_existing)
qed

text \<open>On a track without a display colour the injection leaves exactly one.\<close>

lemma count_std_display_color_fresh:
  assumes "count_tag ''display_color'' e = 0"
  shows "count_tag ''display_color'' (std_display_color c e) = 1"
  using assms find_child_None_zero [OF assms]
  by (simp add: std_display_color_def count_tag_append_child)

lemma count_add_standard_fresh:
  assumes "count_tag ''display_color'' t = 0"
  shows "count_tag ''display_color'' (add_standard_display_color t c) = 1"
proof (cases "find_child ''extensions'' t")
  case None
  then show ?thesis
    using assms
    by (simp add: add_standard_display_color_def count_tag_append_child
        count_std_display_color_fresh)
next
  case (Some e)
  from find_child_Some_mem [OF Some] count_tag_zero_child [OF assms, of e]
  have e: "tag e = ''extensions''" "count_tag ''display_color'' e = 0"
    by simp_all
  from count_tag_update_child [OF Some, of "''display_color''" "std_display_color c"]
  show ?thesis
    using assms e Some by (simp add: add_standard_display_color_def count_std_display_color_fresh)
qed

text \<open>The same for the vendor encoding.\<close>

lemma set_text_first_desc_count:
  "set_text_first_desc tg s cs = Some cs' \<Longrightarrow>
   sum_list (map (\<lambda>c. (if tag c = tg' then 1 else 0) + count_tag tg' c) cs') =
   (sum_list (map (\<lambda>c. (if tag c = tg' then 1 else 0) + count_tag tg' c) cs) :: nat)"
proof (induction tg s cs arbitrary: cs' rule: set_text_first_desc.induct)
  case (1 tg s)
  then show ?case by simp
next
  case (2 tg s t attrs tx ta cs rest)
  show ?case
  proof (cases "t = tg")
    case True
    with "2.prems" show ?thesis
      by (auto simp: count_tag_Elem)
  next
    case False
    show ?thesis
    proof (cases "set_text_first_desc tg s cs")
      case (Some ds)
      from "2.IH"(1) [OF False Some] "2.prems" False Some show ?thesis
        by (auto simp: count_tag_Elem)
    next
      case None
      from "2.prems" False None obtain rest' where
        r: "set_text_first_desc tg s rest = Some rest'" and
        c: "cs' = Elem t attrs tx ta cs # rest'"
        by (auto split: option.splits)
      from "2.IH"(2) [OF False None r] c show ?thesis
        by simp
    qed
  qed
qed

lemma set_text_first_desc_None_zero:
  "sum_list (map (\<lambda>c. (if tag c = tg then 1 else 0) + count_tag tg c) cs) = (0::nat) \<Longrightarrow>
   set_text_first_desc tg s cs = None"
proof (induction tg s cs rule: set_text_first_desc.induct)
  case (1 tg s)
  then show ?case by simp
next
  case (2 tg s t attrs tx ta cs rest)
  from "2.prems" have f: "t \<noteq> tg"
    and c: "count_tag tg (Elem t attrs tx ta cs) = 0"
    and r: "sum_list (map (\<lambda>c. (if tag c = tg then 1 else 0) + count_tag tg c) rest) = (0::nat)"
    by (auto split: if_splits)
  from c have c': "sum_list (map (\<lambda>c. (if tag c = tg then 1 else 0) + count_tag tg c) cs) = (0::nat)"
    by (simp add: count_tag_Elem)
  from "2.IH"(1) [OF f c'] have n: "set_text_first_desc tg s cs = None" .
  from "2.IH"(2) [OF f n r] f n show ?case
    by simp
qed

lemma count_gpxt_block:
  "count_tag (qname GARMIN_GPXX_NS ''DisplayColor'') (gpxt_block c) = 1 \<and>
   tag (gpxt_block c) \<noteq> qname GARMIN_GPXX_NS ''DisplayColor''"
  by (simp add: gpxt_block_def count_tag_append_child append_child_def set_children_def
      set_text_def Element_def count_tag_Elem qname_def GARMIN_GPXX_NS_def GPX_NS_def)

lemma count_add_gpxt_fresh:
  assumes "count_tag (qname GARMIN_GPXX_NS ''DisplayColor'') t = 0"
  shows "count_tag (qname GARMIN_GPXX_NS ''DisplayColor'')
           (add_or_update_gpxt_display_color t c) = 1"
proof -
  have "set_text_first_desc (qname GARMIN_GPXX_NS ''DisplayColor'') c (children t) = None"
    using assms count_tag_children [of "qname GARMIN_GPXX_NS ''DisplayColor''" t]
    by (intro set_text_first_desc_None_zero) simp
  then show ?thesis
    using assms count_gpxt_block [of c]
    by (simp add: add_or_update_gpxt_display_color_def count_tag_append_child)
qed

lemma count_add_gpxt_existing:
  assumes "set_text_first_desc (qname GARMIN_GPXX_NS ''DisplayColor'') c (children t) = Some cs'"
  shows "count_tag tg (add_or_update_gpxt_display_color t c) = count_tag tg t"
  using set_text_first_desc_count [OF assms, of tg] assms
    count_tag_children [of tg t]
  by (simp add: add_or_update_gpxt_display_color_def count_tag_set_children)

lemma count_add_gpxt_twice:
  "count_tag tg (add_or_update_gpxt_display_color (add_or_update_gpxt_display_color t c) c') =
   count_tag tg (add_or_update_gpxt_display_color t c)"
proof (cases "set_text_first_desc (qname GARMIN_GPXX_NS ''DisplayColor'') c'
                (children (add_or_update_gpxt_display_color t c))")
  case None
  have "\<exists>d. find_desc (qname GARMIN_GPXX_NS ''DisplayColor'')
               (add_or_update_gpxt_display_color t c) = Some d"
    using add_or_update_gpxt_display_color_found [of t c] by blast
  moreover have "find_desc (qname GARMIN_GPXX_NS ''DisplayColor'')
               (add_or_update_gpxt_display_color t c) = None"
    using None
      set_text_first_desc_find [where tg = "qname GARMIN_GPXX_NS ''DisplayColor''"
        and s = c' and cs = "children (add_or_update_gpxt_display_color t c)"]
    by (simp add: find_desc_def
        descendants_children [of "add_or_update_gpxt_display_color t c"])
  ultimately show ?thesis by simp
next
  case (Some cs')
  then show ?thesis by (rule count_add_gpxt_existing)
qed

text \<open>
  The elements with a tag below an element, in document order, before and after an
  injection: one text is replaced or one element is added, and every other element of
  the list is the same element as before.
\<close>

lemma findall_desc_children:
  "findall_desc tg e =
     filter (\<lambda>x. tag x = tg) (concat (map (\<lambda>c. c # descendants c) (children e)))"
  unfolding findall_desc_def by (subst descendants_children) (rule refl)

lemma findall_desc_set_children:
  "findall_desc tg (set_children cs e) =
     filter (\<lambda>x. tag x = tg) (concat (map (\<lambda>c. c # descendants c) cs))"
  by (simp add: findall_desc_children)

lemma descendants_set_text [simp]: "descendants (set_text s e) = descendants e"
  by (cases e) (simp add: set_text_def)

lemma findall_desc_append_child:
  "findall_desc tg (append_child c e) =
     findall_desc tg e @ (if tag c = tg then [c] else []) @ findall_desc tg c"
  unfolding append_child_def findall_desc_set_children findall_desc_children [of tg e]
  by (simp add: findall_desc_def)

lemma findall_desc_update_child:
  assumes "find_child t e = Some x" and "tag (f x) = tag x"
  shows "\<exists>pre post.
     findall_desc tg e = pre @ (if tag x = tg then [x] else []) @ findall_desc tg x @ post \<and>
     findall_desc tg (update_child t f e) =
       pre @ (if tag x = tg then [f x] else []) @ findall_desc tg (f x) @ post"
proof -
  from update_first_split [OF assms(1) [unfolded find_child_def], of f]
  obtain p1 p2 where c: "children e = p1 @ x # p2"
    and u: "update_first (\<lambda>c. tag c = t) f (children e) = p1 @ f x # p2"
    by blast
  let ?F = "\<lambda>cs. filter (\<lambda>x. tag x = tg) (concat (map (\<lambda>c. c # descendants c) cs))"
  have "findall_desc tg e =
      ?F p1 @ (if tag x = tg then [x] else []) @ findall_desc tg x @ ?F p2"
    unfolding findall_desc_children [of tg e] c by (simp add: findall_desc_def)
  moreover have "findall_desc tg (update_child t f e) =
      ?F p1 @ (if tag x = tg then [f x] else []) @ findall_desc tg (f x) @ ?F p2"
    unfolding update_child_def findall_desc_set_children u
    using assms(2) by (simp add: findall_desc_def)
  ultimately show ?thesis by blast
qed

lemma std_display_color_others:
  "\<exists>pre x post.
     findall_desc ''display_color'' (std_display_color c e) = pre @ x # post \<and>
     elem_text x = Some c \<and>
     (findall_desc ''display_color'' e = pre @ post \<or>
      (\<exists>d. findall_desc ''display_color'' e = pre @ d # post \<and> x = set_text c d))"
proof (cases "find_child ''display_color'' e")
  case None
  have "findall_desc ''display_color'' (std_display_color c e) =
      findall_desc ''display_color'' e @ set_text c (Element ''display_color'') # []"
    using None
    by (simp add: std_display_color_def findall_desc_append_child)
      (simp add: findall_desc_def set_text_def Element_def)
  then show ?thesis
    by (intro exI [of _ "findall_desc ''display_color'' e"]
        exI [of _ "set_text c (Element ''display_color'')"] exI [of _ "[]"]) simp
next
  case (Some d)
  have td: "tag d = ''display_color''"
    using find_child_Some_mem [OF Some] by simp
  from findall_desc_update_child [OF Some, of "set_text c" "''display_color''"]
  obtain pre post where
    a: "findall_desc ''display_color'' e =
          pre @ d # findall_desc ''display_color'' d @ post"
    and b: "findall_desc ''display_color'' (update_child ''display_color'' (set_text c) e) =
          pre @ set_text c d # findall_desc ''display_color'' d @ post"
    using td by (auto simp: findall_desc_def)
  have "findall_desc ''display_color'' (std_display_color c e) =
      pre @ set_text c d # (findall_desc ''display_color'' d @ post)"
    using Some b by (simp add: std_display_color_def)
  with a show ?thesis
    by (intro exI [of _ pre] exI [of _ "set_text c d"]
        exI [of _ "findall_desc ''display_color'' d @ post"]) simp
qed

lemma add_standard_display_color_others:
  "\<exists>pre x post.
     findall_desc ''display_color'' (add_standard_display_color t c) = pre @ x # post \<and>
     elem_text x = Some c \<and>
     (findall_desc ''display_color'' t = pre @ post \<or>
      (\<exists>d. findall_desc ''display_color'' t = pre @ d # post \<and> x = set_text c d))"
proof (cases "find_child ''extensions'' t")
  case None
  have "findall_desc ''display_color'' (add_standard_display_color t c) =
      findall_desc ''display_color'' t @ set_text c (Element ''display_color'') # []"
    using None
    by (simp add: add_standard_display_color_def findall_desc_append_child)
      (simp add: std_display_color_def find_child_def findall_desc_def set_text_def Element_def
        append_child_def set_children_def)
  then show ?thesis
    by (intro exI [of _ "findall_desc ''display_color'' t"]
        exI [of _ "set_text c (Element ''display_color'')"] exI [of _ "[]"]) simp
next
  case (Some e)
  have te: "tag e = ''extensions''"
    using find_child_Some_mem [OF Some] by simp
  from findall_desc_update_child [OF Some, of "std_display_color c" "''display_color''"]
  obtain p1 p2 where
    a: "findall_desc ''display_color'' t = p1 @ findall_desc ''display_color'' e @ p2"
    and b: "findall_desc ''display_color''
              (update_child ''extensions'' (std_display_color c) t) =
          p1 @ findall_desc ''display_color'' (std_display_color c e) @ p2"
    using te by auto
  from std_display_color_others [of c e] obtain pre x post where
    s: "findall_desc ''display_color'' (std_display_color c e) = pre @ x # post"
    and x: "elem_text x = Some c"
    and o: "findall_desc ''display_color'' e = pre @ post \<or>
      (\<exists>d. findall_desc ''display_color'' e = pre @ d # post \<and> x = set_text c d)"
    by blast
  have "findall_desc ''display_color'' (add_standard_display_color t c) =
      (p1 @ pre) @ x # (post @ p2)"
    using Some b s by (simp add: add_standard_display_color_def)
  moreover have "findall_desc ''display_color'' t = (p1 @ pre) @ (post @ p2) \<or>
      (\<exists>d. findall_desc ''display_color'' t = (p1 @ pre) @ d # (post @ p2) \<and> x = set_text c d)"
    using a o by auto
  ultimately show ?thesis
    using x by blast
qed

lemma set_text_first_desc_others:
  "(case set_text_first_desc tg s cs of
      None \<Rightarrow> filter (\<lambda>x. tag x = tg) (concat (map (\<lambda>c. c # descendants c) cs)) = []
    | Some cs' \<Rightarrow>
        (\<exists>d post.
           filter (\<lambda>x. tag x = tg) (concat (map (\<lambda>c. c # descendants c) cs)) = d # post \<and>
           filter (\<lambda>x. tag x = tg) (concat (map (\<lambda>c. c # descendants c) cs')) =
             set_text s d # post))"
proof (induction tg s cs rule: set_text_first_desc.induct)
  case (1 tg s)
  then show ?case by simp
next
  case (2 tg s t attrs tx ta cs rest)
  let ?F = "\<lambda>cs. filter (\<lambda>x. tag x = tg) (concat (map (\<lambda>c. c # descendants c) cs))"
  show ?case
  proof (cases "t = tg")
    case True
    then show ?thesis
      by (simp add: set_text_def)
  next
    case False
    note f = False
    show ?thesis
    proof (cases "set_text_first_desc tg s cs")
      case (Some cs1)
      from "2.IH"(1) [OF f] Some obtain d post where
        "?F cs = d # post" "?F cs1 = set_text s d # post"
        by auto
      with f Some show ?thesis
        by simp
    next
      case None
      from "2.IH"(1) [OF f] None have c: "?F cs = []"
        by simp
      show ?thesis
      proof (cases "set_text_first_desc tg s rest")
        case None
        from "2.IH"(2) [OF f \<open>set_text_first_desc tg s cs = None\<close>] None have "?F rest = []"
          by simp
        with f c None \<open>set_text_first_desc tg s cs = None\<close> show ?thesis
          by simp
      next
        case (Some rest1)
        from "2.IH"(2) [OF f \<open>set_text_first_desc tg s cs = None\<close>] Some obtain d post where
          "?F rest = d # post" "?F rest1 = set_text s d # post"
          by auto
        with f c Some \<open>set_text_first_desc tg s cs = None\<close> show ?thesis
          by simp
      qed
    qed
  qed
qed

lemma add_or_update_gpxt_display_color_others:
  "\<exists>x post.
     findall_desc (qname GARMIN_GPXX_NS ''DisplayColor'')
       (add_or_update_gpxt_display_color t c) = x # post \<and>
     elem_text x = Some c \<and>
     ((findall_desc (qname GARMIN_GPXX_NS ''DisplayColor'') t = [] \<and> post = []) \<or>
      (\<exists>d. findall_desc (qname GARMIN_GPXX_NS ''DisplayColor'') t = d # post \<and>
           x = set_text c d))"
proof (cases "set_text_first_desc (qname GARMIN_GPXX_NS ''DisplayColor'') c (children t)")
  case None
  with set_text_first_desc_others
    [where tg = "qname GARMIN_GPXX_NS ''DisplayColor''" and s = c and cs = "children t"]
  have e: "findall_desc (qname GARMIN_GPXX_NS ''DisplayColor'') t = []"
    by (simp add: findall_desc_children)
  have "findall_desc (qname GARMIN_GPXX_NS ''DisplayColor'')
          (add_or_update_gpxt_display_color t c) =
        [set_text c (Element (qname GARMIN_GPXX_NS ''DisplayColor''))]"
    using None e
    by (simp add: add_or_update_gpxt_display_color_def findall_desc_append_child)
      (simp add: gpxt_block_def findall_desc_def append_child_def set_children_def set_text_def
        Element_def qname_def GARMIN_GPXX_NS_def GPX_NS_def)
  with e show ?thesis
    by simp
next
  case (Some cs')
  with set_text_first_desc_others
    [where tg = "qname GARMIN_GPXX_NS ''DisplayColor''" and s = c and cs = "children t"]
  obtain d post where
    "findall_desc (qname GARMIN_GPXX_NS ''DisplayColor'') t = d # post"
    "filter (\<lambda>x. tag x = qname GARMIN_GPXX_NS ''DisplayColor'')
       (concat (map (\<lambda>c. c # descendants c) cs')) = set_text c d # post"
    by (auto simp: findall_desc_children)
  with Some show ?thesis
    by (simp add: add_or_update_gpxt_display_color_def findall_desc_set_children)
qed

text \<open>The second run changes the text of one element of the list and nothing else.\<close>

lemma add_standard_display_color_second:
  "\<exists>pre d post.
     findall_desc ''display_color'' (add_standard_display_color t c) = pre @ d # post \<and>
     findall_desc ''display_color''
       (add_standard_display_color (add_standard_display_color t c) c') =
       pre @ set_text c' d # post"
proof -
  let ?t = "add_standard_display_color t c"
  from add_standard_display_color_others [of ?t c'] obtain pre x post where
    s: "findall_desc ''display_color'' (add_standard_display_color ?t c') = pre @ x # post"
    and o: "findall_desc ''display_color'' ?t = pre @ post \<or>
      (\<exists>d. findall_desc ''display_color'' ?t = pre @ d # post \<and> x = set_text c' d)"
    by blast
  have "length (findall_desc ''display_color'' (add_standard_display_color ?t c')) =
        length (findall_desc ''display_color'' ?t)"
    using count_add_standard_twice [of "''display_color''" t c c'] by (simp add: count_tag_def)
  with s have "findall_desc ''display_color'' ?t \<noteq> pre @ post"
    by auto
  with o s show ?thesis
    by auto
qed

lemma add_or_update_gpxt_display_color_second:
  "\<exists>d post.
     findall_desc (qname GARMIN_GPXX_NS ''DisplayColor'')
       (add_or_update_gpxt_display_color t c) = d # post \<and>
     findall_desc (qname GARMIN_GPXX_NS ''DisplayColor'')
       (add_or_update_gpxt_display_color (add_or_update_gpxt_display_color t c) c') =
       set_text c' d # post"
proof -
  let ?t = "add_or_update_gpxt_display_color t c"
  from add_or_update_gpxt_display_color_others [of t c] obtain x0 post0 where
    "findall_desc (qname GARMIN_GPXX_NS ''DisplayColor'') ?t = x0 # post0"
    by blast
  with add_or_update_gpxt_display_color_others [of ?t c'] show ?thesis
    by auto
qed

lemmas tree_eval =
  count_tag_def findall_desc_def find_desc_def find_child_def add_standard_display_color_def
  std_display_color_def add_or_update_gpxt_display_color_def gpxt_block_def append_child_def
  update_child_def insert_first_def set_children_def set_text_def Element_def
  Element_attrib_def sample_trk_def sample_trkpt_def sample_gpx_def qname_def GPX_NS_def
  GARMIN_GPXX_NS_def

text \<open>
  Claim C6, as stated: after two injections the tree holds exactly one display colour per
  encoding. A track that comes with two \<^verbatim>\<open>display_color\<close> elements in its
  \<^verbatim>\<open>extensions\<close> block still has two after the generic injection has run twice, and
  a track with two vendor \<^verbatim>\<open>DisplayColor\<close> elements still has two after the vendor
  injection has run twice: each injection rewrites the first one it finds and leaves the
  other.
\<close>

theorem color_injection_counterexample:
  "count_tag ''display_color''
     (add_standard_display_color
        (add_standard_display_color
           (Elem (qname GPX_NS ''trk'') [] None None
              [Elem ''extensions'' [] None None
                 [Elem ''display_color'' [] (Some ''#111111'') None [],
                  Elem ''display_color'' [] (Some ''#222222'') None []]])
           ''#D80000'')
        ''#D80000'') = 2 \<and>
   count_tag (qname GARMIN_GPXX_NS ''DisplayColor'')
     (add_or_update_gpxt_display_color
        (add_or_update_gpxt_display_color
           (Elem (qname GPX_NS ''trk'') [] None None
              [Elem (qname GARMIN_GPXX_NS ''DisplayColor'') [] (Some ''Red'') None [],
               Elem (qname GARMIN_GPXX_NS ''DisplayColor'') [] (Some ''Blue'') None []])
           ''#D80000'')
        ''#D80000'') = 2"
  by (simp add: tree_eval)

text \<open>
  Claim C6, amended: colour injection is idempotent. For every track and colours \<open>c\<close>,
  \<open>c'\<close>, injecting \<open>c\<close> and then \<open>c'\<close> gives the tree that injecting \<open>c'\<close> alone
  gives, in the generic and in the vendor encoding: the second run finds the element of
  the first and overwrites its text. It adds no element (the count of every tag is as
  after the first run), the display colour that the lookup of each encoding finds carries
  the latest value, and a track that held no display colour element of an encoding
  before holds exactly one afterwards. The display colour elements that the track held
  beside the one found are left as they are: the list of the display colour elements of
  an encoding below the track, in document order, is after the two runs the list of the
  original track with one element added or with the text of one element replaced (in
  the vendor encoding, the first), and the second run replaces the text of one element
  of the list that the first run left and changes nothing else in it.
\<close>

theorem color_injection_overwrites:
  "add_standard_display_color (add_standard_display_color t c) c' =
     add_standard_display_color t c' \<and>
   add_or_update_gpxt_display_color (add_or_update_gpxt_display_color t c) c' =
     add_or_update_gpxt_display_color t c' \<and>
   count_tag tg (add_standard_display_color (add_standard_display_color t c) c') =
     count_tag tg (add_standard_display_color t c) \<and>
   count_tag tg (add_or_update_gpxt_display_color (add_or_update_gpxt_display_color t c) c') =
     count_tag tg (add_or_update_gpxt_display_color t c) \<and>
   (\<exists>e d. find_child ''extensions''
             (add_standard_display_color (add_standard_display_color t c) c') = Some e \<and>
          find_child ''display_color'' e = Some d \<and> elem_text d = Some c') \<and>
   (\<exists>d. find_desc (qname GARMIN_GPXX_NS ''DisplayColor'')
           (add_or_update_gpxt_display_color (add_or_update_gpxt_display_color t c) c') =
           Some d \<and> elem_text d = Some c') \<and>
   (count_tag ''display_color'' t = 0 \<longrightarrow>
      count_tag ''display_color''
        (add_standard_display_color (add_standard_display_color t c) c') = 1) \<and>
   (count_tag (qname GARMIN_GPXX_NS ''DisplayColor'') t = 0 \<longrightarrow>
      count_tag (qname GARMIN_GPXX_NS ''DisplayColor'')
        (add_or_update_gpxt_display_color (add_or_update_gpxt_display_color t c) c') = 1) \<and>
   (\<exists>pre x post.
      findall_desc ''display_color''
        (add_standard_display_color (add_standard_display_color t c) c') = pre @ x # post \<and>
      elem_text x = Some c' \<and>
      (findall_desc ''display_color'' t = pre @ post \<or>
       (\<exists>d. findall_desc ''display_color'' t = pre @ d # post \<and> x = set_text c' d))) \<and>
   (\<exists>x post.
      findall_desc (qname GARMIN_GPXX_NS ''DisplayColor'')
        (add_or_update_gpxt_display_color (add_or_update_gpxt_display_color t c) c') =
        x # post \<and>
      elem_text x = Some c' \<and>
      ((findall_desc (qname GARMIN_GPXX_NS ''DisplayColor'') t = [] \<and> post = []) \<or>
       (\<exists>d. findall_desc (qname GARMIN_GPXX_NS ''DisplayColor'') t = d # post \<and>
            x = set_text c' d))) \<and>
   (\<exists>pre d post.
      findall_desc ''display_color'' (add_standard_display_color t c) = pre @ d # post \<and>
      findall_desc ''display_color''
        (add_standard_display_color (add_standard_display_color t c) c') =
        pre @ set_text c' d # post) \<and>
   (\<exists>d post.
      findall_desc (qname GARMIN_GPXX_NS ''DisplayColor'')
        (add_or_update_gpxt_display_color t c) = d # post \<and>
      findall_desc (qname GARMIN_GPXX_NS ''DisplayColor'')
        (add_or_update_gpxt_display_color (add_or_update_gpxt_display_color t c) c') =
        set_text c' d # post)"
proof (intro conjI impI)
  show "add_standard_display_color (add_standard_display_color t c) c' =
        add_standard_display_color t c'"
    by (rule add_standard_display_color_twice)
  show "add_or_update_gpxt_display_color (add_or_update_gpxt_display_color t c) c' =
        add_or_update_gpxt_display_color t c'"
    by (rule add_or_update_gpxt_display_color_twice)
  show "count_tag tg (add_standard_display_color (add_standard_display_color t c) c') =
        count_tag tg (add_standard_display_color t c)"
    by (rule count_add_standard_twice)
  show "count_tag tg
          (add_or_update_gpxt_display_color (add_or_update_gpxt_display_color t c) c') =
        count_tag tg (add_or_update_gpxt_display_color t c)"
    by (rule count_add_gpxt_twice)
  show "\<exists>e d. find_child ''extensions''
               (add_standard_display_color (add_standard_display_color t c) c') = Some e \<and>
             find_child ''display_color'' e = Some d \<and> elem_text d = Some c'"
    by (rule add_standard_display_color_found)
  show "\<exists>d. find_desc (qname GARMIN_GPXX_NS ''DisplayColor'')
             (add_or_update_gpxt_display_color (add_or_update_gpxt_display_color t c) c') =
             Some d \<and> elem_text d = Some c'"
    by (rule add_or_update_gpxt_display_color_found)
  show "count_tag ''display_color''
          (add_standard_display_color (add_standard_display_color t c) c') = 1"
    if "count_tag ''display_color'' t = 0"
    using that by (simp add: add_standard_display_color_twice count_add_standard_fresh)
  show "count_tag (qname GARMIN_GPXX_NS ''DisplayColor'')
          (add_or_update_gpxt_display_color (add_or_update_gpxt_display_color t c) c') = 1"
    if "count_tag (qname GARMIN_GPXX_NS ''DisplayColor'') t = 0"
    using that by (simp add: add_or_update_gpxt_display_color_twice count_add_gpxt_fresh)
  show "\<exists>pre x post.
      findall_desc ''display_color''
        (add_standard_display_color (add_standard_display_color t c) c') = pre @ x # post \<and>
      elem_text x = Some c' \<and>
      (findall_desc ''display_color'' t = pre @ post \<or>
       (\<exists>d. findall_desc ''display_color'' t = pre @ d # post \<and> x = set_text c' d))"
    unfolding add_standard_display_color_twice by (rule add_standard_display_color_others)
  show "\<exists>x post.
      findall_desc (qname GARMIN_GPXX_NS ''DisplayColor'')
        (add_or_update_gpxt_display_color (add_or_update_gpxt_display_color t c) c') =
        x # post \<and>
      elem_text x = Some c' \<and>
      ((findall_desc (qname GARMIN_GPXX_NS ''DisplayColor'') t = [] \<and> post = []) \<or>
       (\<exists>d. findall_desc (qname GARMIN_GPXX_NS ''DisplayColor'') t = d # post \<and>
            x = set_text c' d))"
    unfolding add_or_update_gpxt_display_color_twice
    by (rule add_or_update_gpxt_display_color_others)
  show "\<exists>pre d post.
      findall_desc ''display_color'' (add_standard_display_color t c) = pre @ d # post \<and>
      findall_desc ''display_color''
        (add_standard_display_color (add_standard_display_color t c) c') =
        pre @ set_text c' d # post"
    by (rule add_standard_display_color_second)
  show "\<exists>d post.
      findall_desc (qname GARMIN_GPXX_NS ''DisplayColor'')
        (add_or_update_gpxt_display_color t c) = d # post \<and>
      findall_desc (qname GARMIN_GPXX_NS ''DisplayColor'')
        (add_or_update_gpxt_display_color (add_or_update_gpxt_display_color t c) c') =
        set_text c' d # post"
    by (rule add_or_update_gpxt_display_color_second)
qed

theorem color_injection_overwrites_witness:
  "count_tag ''display_color'' (sample_trk [sample_trkpt ''10'' ''20'']) = 0 \<and>
   count_tag (qname GARMIN_GPXX_NS ''DisplayColor'') (sample_trk [sample_trkpt ''10'' ''20'']) = 0 \<and>
   count_tag ''display_color''
     (add_standard_display_color
        (add_standard_display_color (sample_trk [sample_trkpt ''10'' ''20'']) ''#D80000'')
        ''#D8A200'') = 1 \<and>
   count_tag (qname GARMIN_GPXX_NS ''DisplayColor'')
     (add_or_update_gpxt_display_color
        (add_or_update_gpxt_display_color (sample_trk [sample_trkpt ''10'' ''20'']) ''#D80000'')
        ''#D8A200'') = 1"
proof -
  let ?t = "sample_trk [sample_trkpt ''10'' ''20'']"
  have h1: "count_tag ''display_color'' ?t = 0"
    by (simp add: tree_eval)
  have h2: "count_tag (qname GARMIN_GPXX_NS ''DisplayColor'') ?t = 0"
    by (simp add: tree_eval)
  show ?thesis
    using h1 h2
      color_injection_overwrites [of ?t "''#D80000''" "''#D8A200''" "''display_color''"]
    by blast
qed

subsection \<open>The palette\<close>

lemmas color_eval =
  hex_color_of_def hsv_to_rgb_def format_02X_def float_eval bitlen_numeral floor_rat_numeral
  ceiling_rat_numeral

text \<open>The colour of each hue that the walks below accept.\<close>

lemma hex_color_of_0: "hex_color_of 0 = ''#D80000''"
  by (simp add: color_eval)

lemma hex_color_of_30: "hex_color_of 30 = ''#D86C00''"
  by (simp add: color_eval)

lemma hex_color_of_45: "hex_color_of 45 = ''#D8A200''"
  by (simp add: color_eval)

lemma hex_color_of_90: "hex_color_of 90 = ''#6CD800''"
  by (simp add: color_eval)

lemma hex_color_of_150: "hex_color_of 150 = ''#00D86C''"
  by (simp add: color_eval)

lemma hex_color_of_225: "hex_color_of 225 = ''#0036D8''"
  by (simp add: color_eval)

lemma hex_color_of_240: "hex_color_of 240 = ''#0000D8''"
  by (simp add: color_eval)

lemma hex_color_of_270: "hex_color_of 270 = ''#6C00D8''"
  by (simp add: color_eval)

lemma hex_color_of_300: "hex_color_of 300 = ''#D800D8''"
  by (simp add: color_eval)

lemma hex_color_of_315: "hex_color_of 315 = ''#D800A2''"
  by (simp add: color_eval)

lemma hex_color_of_330: "hex_color_of 330 = ''#D8006C''"
  by (simp add: color_eval)

lemmas hex_color_of_hues =
  hex_color_of_0 hex_color_of_30 hex_color_of_45 hex_color_of_90 hex_color_of_150 hex_color_of_225 hex_color_of_240 hex_color_of_270 hex_color_of_300 hex_color_of_315 hex_color_of_330

text \<open>One turn of the loop, and its end.\<close>

lemma color_loop_step:
  "int (length colors) < n \<Longrightarrow>
   color_loop n step hue_deg colors =
     color_loop n step (next_hue step hue_deg) (next_colors hue_deg colors)"
  by (subst color_loop.simps) simp

lemma color_loop_done:
  "\<not> int (length colors) < n \<Longrightarrow> color_loop n step hue_deg colors = Some colors"
  by (subst color_loop.simps) simp

lemmas loop_eval =
  generate_safe_colors_def color_loop_step color_loop_done next_hue_def next_colors_def
  banned_def fadd_def fsub_def fdiv_def Let_def rnd64_small hex_color_of_hues

lemma generate_safe_colors_1: "generate_safe_colors 1 = Some (Inr [''#D80000''])"
  by (simp add: loop_eval)

lemma generate_safe_colors_4:
  "generate_safe_colors 4 = Some (Inr [''#D80000'', ''#6CD800'', ''#6C00D8'', ''#D80000''])"
  by (simp add: loop_eval)

lemma generate_safe_colors_8:
  "generate_safe_colors 8 =
     Some (Inr [''#D80000'', ''#D8A200'', ''#6CD800'', ''#0036D8'', ''#6C00D8'', ''#D800A2'',
                ''#D80000'', ''#D8A200''])"
  by (simp add: loop_eval)

lemma generate_safe_colors_12:
  "generate_safe_colors 12 =
     Some (Inr [''#D80000'', ''#D86C00'', ''#6CD800'', ''#00D86C'', ''#0000D8'', ''#6C00D8'',
                ''#D800D8'', ''#D8006C'', ''#D80000'', ''#D86C00'', ''#6CD800'', ''#00D86C''])"
  by (simp add: loop_eval)


text \<open>
  Claim C7: for \<open>n\<close> = 1, 4, 8 and 12 \<^verbatim>\<open>generate_safe_colors(n)\<close> returns (the loop
  ends), and the result is the list of the colours of \<open>n\<close> hues, all of them outside the
  banned bands [50, 70], [100, 140] and [180, 210], each colour a well-formed upper-case
  \<^verbatim>\<open>#RRGGBB\<close> string. The function reads nothing but \<open>n\<close>, so every call with the same
  \<open>n\<close> returns the list given here; for \<open>n = 8\<close> the strings are spelled out.
\<close>

theorem generate_safe_colors_1_4_8_12:
  "generate_safe_colors 1 = Some (Inr (map hex_color_of [0])) \<and>
   generate_safe_colors 4 = Some (Inr (map hex_color_of [0, 90, 270, 0])) \<and>
   generate_safe_colors 8 =
     Some (Inr (map hex_color_of [0, 45, 90, 225, 270, 315, 0, 45])) \<and>
   generate_safe_colors 12 =
     Some (Inr (map hex_color_of [0, 30, 90, 150, 240, 270, 300, 330, 0, 30, 90, 150])) \<and>
   length (map hex_color_of [0]) = 1 \<and>
   length (map hex_color_of [0, 90, 270, 0]) = 4 \<and>
   length (map hex_color_of [0, 45, 90, 225, 270, 315, 0, 45]) = 8 \<and>
   length (map hex_color_of [0, 30, 90, 150, 240, 270, 300, 330, 0, 30, 90, 150]) = 12 \<and>
   list_all (\<lambda>hue. \<not> banned hue) [0, 30, 45, 90, 150, 225, 240, 270, 300, 315, 330] \<and>
   list_all is_hex_color
     (map hex_color_of [0, 30, 45, 90, 150, 225, 240, 270, 300, 315, 330]) \<and>
   generate_safe_colors 8 =
     Some (Inr [''#D80000'', ''#D8A200'', ''#6CD800'', ''#0036D8'', ''#6C00D8'', ''#D800A2'',
                ''#D80000'', ''#D8A200''])"
proof -
  have b: "list_all (\<lambda>hue. \<not> banned hue) [0, 30, 45, 90, 150, 225, 240, 270, 300, 315, 330]"
    by (simp add: banned_def)
  have w: "list_all is_hex_color
      (map hex_color_of [0, 30, 45, 90, 150, 225, 240, 270, 300, 315, 330])"
    by (simp add: hex_color_of_hues is_hex_color_def)
  show ?thesis
    using b w
    by (simp add: generate_safe_colors_1 generate_safe_colors_4 generate_safe_colors_8
        generate_safe_colors_12 hex_color_of_hues)
qed

text \<open>
  Claim C2 at \<open>n = 8\<close>, the default: the call returns eight strings, but the walk
  accepts only six hues in one turn of the circle (135 and 180 are banned), wraps to hue
  0 and takes the first two again. Entries 0 and 6 are equal, so are entries 1 and 7.
\<close>

theorem generate_safe_colors_8_repeats:
  "\<exists>colors. generate_safe_colors 8 = Some (Inr colors) \<and> length colors = 8 \<and>
     colors ! 0 = colors ! 6 \<and> colors ! 1 = colors ! 7 \<and> \<not> distinct colors"
  by (simp add: generate_safe_colors_8)

subsection \<open>A run on malformed input\<close>

text \<open>
  Claim C8: when the input cannot be parsed, be it malformed XML or any other failure of
  \<^verbatim>\<open>ET.parse\<close>, the run returns after printing one line that carries the cause, and
  it writes no file: the list of writes is as before the run, so neither a track file
  nor \<^verbatim>\<open>All-Waypoints.gpx\<close> exists in the output directory, which the run has
  created before parsing. No tree is left in memory.
\<close>

theorem malformed_input_writes_nothing:
  assumes "split_gpx l input_gpx_path (Inl failure) w = result"
  shows "\<exists>w'. result = Returned (w', None) \<and> writes w' = writes w \<and>
         dirs w' = dirs w @ [target_folder_of l input_gpx_path] \<and>
         printed w' = printed w @
           [case failure of
              ParseError e \<Rightarrow> ''Fout: Het GPX-bestand kon niet worden geparsed: '' @ e
            | OtherException e \<Rightarrow> ''Onverwachte fout bij het lezen van het GPX-bestand: '' @ e]"
  using assms
  by (cases failure) (auto simp: split_gpx_def Let_def print_def makedirs_def)

theorem malformed_input_writes_nothing_witness:
  "\<exists>w'. split_gpx sample_lib ''/data/tour.gpx''
           (Inl (ParseError ''no element found: line 1, column 0'')) empty_world =
         Returned (w', None) \<and>
        writes w' = [] \<and>
        printed w' =
          [''Fout: Het GPX-bestand kon niet worden geparsed: no element found: line 1, column 0'']"
proof -
  have "\<exists>w'. split_gpx sample_lib ''/data/tour.gpx''
           (Inl (ParseError ''no element found: line 1, column 0'')) empty_world =
         Returned (w', None) \<and>
        writes w' = [] \<and>
        dirs w' = [target_folder_of sample_lib ''/data/tour.gpx''] \<and>
        printed w' =
          [''Fout: Het GPX-bestand kon niet worden geparsed: no element found: line 1, column 0'']"
    using malformed_input_writes_nothing [OF refl, of sample_lib "''/data/tour.gpx''"
        "ParseError ''no element found: line 1, column 0''" empty_world]
    by (simp add: empty_world_def)
  then show ?thesis
    by (elim exE conjE) (intro exI conjI; assumption)
qed

subsection \<open>A run on a parsed document\<close>

lemma tag_add_standard_display_color [simp]:
  "tag (add_standard_display_color t c) = tag t"
  by (simp add: add_standard_display_color_def append_child_def update_child_def
      split: option.splits)

lemma tag_add_or_update_gpxt_display_color [simp]:
  "tag (add_or_update_gpxt_display_color t c) = tag t"
  by (simp add: add_or_update_gpxt_display_color_def append_child_def split: option.splits)

lemma tag_add_bounds [simp]: "tag (add_bounds fmt t b) = tag t"
  by (simp add: add_bounds_def insert_first_def split: option.splits)

lemma tag_annotate [simp]: "tag (annotate l idx t) = tag t"
  by (simp add: annotate_def Let_def)

text \<open>
  The loop over the tracks. Each turn replaces the child at one position by its
  annotated form and, when the copy succeeds, appends one write; the positions are
  distinct, so a turn reads the child that the parser built.
\<close>

lemma split_track_eq:
  "split_track l folder (r, w) (idx, pos) =
     (case lib_copy l (annotate l idx (children r ! pos)) of
        Inl e \<Rightarrow>
          Uncaught e (set_children ((children r)[pos := annotate l idx (children r ! pos)]) r, w)
      | Inr track_copy \<Rightarrow>
          Returned
            (set_children ((children r)[pos := annotate l idx (children r ! pos)]) r,
             w\<lparr>writes := writes w @
                 [(path_join folder (safe_name (children r ! pos) idx @ ''.gpx''),
                   append_child track_copy new_gpx_root)]\<rparr>))"
  by (simp add: split_track_def Let_def write_file_def split: sum.splits)

lemma track_loop_returned:
  assumes "distinct ps" and "\<forall>p\<in>set ps. p < length (children r)"
    and "track_loop l folder (zip [k..<k + length ps] ps) (r, w) = Returned st"
  shows "st =
     (set_children
        (fold (\<lambda>(idx, pos) cs. cs[pos := annotate l idx (children r ! pos)])
           (zip [k..<k + length ps] ps) (children r)) r,
      w\<lparr>writes := writes w @
          map (\<lambda>(idx, pos).
                 (path_join folder (safe_name (children r ! pos) idx @ ''.gpx''),
                  append_child (projr (lib_copy l (annotate l idx (children r ! pos))))
                    new_gpx_root))
            (zip [k..<k + length ps] ps)\<rparr>) \<and>
     (\<forall>(idx, pos)\<in>set (zip [k..<k + length ps] ps).
        \<not> isl (lib_copy l (annotate l idx (children r ! pos))))"
  using assms
proof (induction ps arbitrary: r w k)
  case Nil
  then show ?case by (simp add: set_children_def)
next
  case (Cons p ps)
  let ?a = "annotate l k (children r ! p)"
  let ?r1 = "set_children ((children r)[p := ?a]) r"
  have "[k..<k + length (p # ps)] = k # [Suc k..<Suc k + length ps]"
    using upt_conv_Cons [of k "Suc (k + length ps)"] by (simp del: upt_Suc)
  then have z: "zip [k..<k + length (p # ps)] (p # ps) =
      (k, p) # zip [Suc k..<Suc k + length ps] ps"
    by (simp only: zip_Cons_Cons)
  define zs where "zs = zip [Suc k..<Suc k + length ps] ps"
  have loop: "track_loop l folder ((k, p) # zs) (r, w) = Returned st"
    using Cons.prems(3) unfolding z zs_def .
  obtain c where c: "lib_copy l ?a = Inr c"
    using loop by (cases "lib_copy l ?a") (simp_all add: split_track_eq)
  let ?w1 = "w\<lparr>writes := writes w @
          [(path_join folder (safe_name (children r ! p) k @ ''.gpx''),
            append_child c new_gpx_root)]\<rparr>"
  have rest: "track_loop l folder zs (?r1, ?w1) = Returned st"
    using loop by (simp add: split_track_eq c)
  have d: "distinct ps" and b: "\<forall>q\<in>set ps. q < length (children ?r1)"
    using Cons.prems by simp_all
  have zmem: "q \<in> set ps" if "(i, q) \<in> set zs" for i q
    using that by (auto simp: zs_def dest: set_zip_rightD)
  have same: "(children r)[p := ?a] ! q = children r ! q" if "q \<in> set ps" for q
  proof -
    from that Cons.prems(1) have "p \<noteq> q" by auto
    then show ?thesis by simp
  qed
  have m: "map (\<lambda>(idx, pos).
                 (path_join folder (safe_name (children ?r1 ! pos) idx @ ''.gpx''),
                  append_child (projr (lib_copy l (annotate l idx (children ?r1 ! pos))))
                    new_gpx_root))
            zs =
           map (\<lambda>(idx, pos).
                 (path_join folder (safe_name (children r ! pos) idx @ ''.gpx''),
                  append_child (projr (lib_copy l (annotate l idx (children r ! pos))))
                    new_gpx_root))
            zs"
    by (rule map_cong [OF refl]) (auto simp: same dest: zmem)
  have f: "fold (\<lambda>(idx, pos) cs. cs[pos := annotate l idx (children ?r1 ! pos)]) zs cs0 =
           fold (\<lambda>(idx, pos) cs. cs[pos := annotate l idx (children r ! pos)]) zs cs0" for cs0
    by (rule fold_cong [OF refl refl]) (auto simp: same dest: zmem)
  have ok: "(\<forall>(idx, pos)\<in>set zs. \<not> isl (lib_copy l (annotate l idx (children ?r1 ! pos)))) =
            (\<forall>(idx, pos)\<in>set zs. \<not> isl (lib_copy l (annotate l idx (children r ! pos))))"
    by (rule ball_cong [OF refl]) (auto simp: same dest: zmem)
  have ih: "st =
     (set_children
        (fold (\<lambda>(idx, pos) cs. cs[pos := annotate l idx (children ?r1 ! pos)]) zs
           (children ?r1)) ?r1,
      ?w1\<lparr>writes := writes ?w1 @
          map (\<lambda>(idx, pos).
                 (path_join folder (safe_name (children ?r1 ! pos) idx @ ''.gpx''),
                  append_child (projr (lib_copy l (annotate l idx (children ?r1 ! pos))))
                    new_gpx_root))
            zs\<rparr>) \<and>
     (\<forall>(idx, pos)\<in>set zs. \<not> isl (lib_copy l (annotate l idx (children ?r1 ! pos))))"
    using Cons.IH [OF d b, where w = ?w1 and k = "Suc k"] rest unfolding zs_def by blast
  show ?case
    using ih unfolding m f ok z zs_def [symmetric]
    by (simp add: c)
qed

lemma track_loop_all_copied:
  assumes "\<forall>(idx, pos)\<in>set zs. \<not> isl (lib_copy l (annotate l idx (children r ! pos)))"
    and "distinct (map snd zs)"
  shows "\<exists>st. track_loop l folder zs (r, w) = Returned st"
  using assms
proof (induction zs arbitrary: r w)
  case Nil
  then show ?case by simp
next
  case (Cons z zs)
  obtain k p where z: "z = (k, p)" by (cases z)
  let ?a = "annotate l k (children r ! p)"
  let ?r1 = "set_children ((children r)[p := ?a]) r"
  obtain c where c: "lib_copy l ?a = Inr c"
    using Cons.prems(1) z by (cases "lib_copy l ?a") auto
  have same: "(children r)[p := ?a] ! q = children r ! q" if "q \<in> snd ` set zs" for q
  proof -
    from that Cons.prems(2) z have "p \<noteq> q" by auto
    then show ?thesis by simp
  qed
  have "\<forall>(idx, pos)\<in>set zs. \<not> isl (lib_copy l (annotate l idx (children ?r1 ! pos)))"
    using Cons.prems(1) same by force
  moreover have "distinct (map snd zs)"
    using Cons.prems(2) by simp
  ultimately show ?case
    using Cons.IH [of ?r1] by (simp add: z split_track_eq c)
qed

lemma fold_update_length:
  "length (fold (\<lambda>(idx, pos) cs. cs[pos := g idx pos]) zs cs) = length cs"
  by (induction zs arbitrary: cs) auto

lemma fold_update_other:
  "q \<notin> snd ` set zs \<Longrightarrow> fold (\<lambda>(idx, pos) cs. cs[pos := g idx pos]) zs cs ! q = cs ! q"
  by (induction zs arbitrary: cs) auto

lemma fold_update_at:
  assumes "distinct (map snd zs)" and "(i, p) \<in> set zs" and "p < length cs"
  shows "fold (\<lambda>(idx, pos) cs. cs[pos := g idx pos]) zs cs ! p = g i p"
  using assms
proof (induction zs arbitrary: cs)
  case Nil
  then show ?case by simp
next
  case (Cons z zs)
  obtain j q where z: "z = (j, q)" by (cases z)
  show ?case
  proof (cases "(i, p) = z")
    case True
    then have "p \<notin> snd ` set zs"
      using Cons.prems(1) z by auto
    then show ?thesis
      using True z Cons.prems(3) by (simp add: fold_update_other)
  next
    case False
    then have "(i, p) \<in> set zs"
      using Cons.prems(2) by simp
    then show ?thesis
      using Cons.IH [of "cs[q := g j q]"] Cons.prems z by simp
  qed
qed

lemma track_positions_props:
  "distinct (track_positions r) \<and> (\<forall>p\<in>set (track_positions r). p < length (children r)) \<and>
   (\<forall>p. p \<in> set (track_positions r) \<longleftrightarrow>
      p < length (children r) \<and> tag (children r ! p) = qname GPX_NS ''trk'')"
  by (auto simp: track_positions_def)

lemma enumerate1_zip: "enumerate1 ps = zip [1..<1 + length ps] ps"
  by (simp add: enumerate1_def)

lemma filter_eq_nth:
  assumes "length xs = length ys"
    and "\<And>i. i < length xs \<Longrightarrow> P (xs ! i) = P (ys ! i) \<and> (P (ys ! i) \<longrightarrow> xs ! i = ys ! i)"
  shows "filter P xs = filter P ys"
  using assms
proof (induction xs ys rule: list_induct2)
  case Nil
  then show ?case by simp
next
  case (Cons x xs y ys)
  have h: "P x = P y \<and> (P y \<longrightarrow> x = y)"
    using Cons.prems [of 0] by simp
  have "filter P xs = filter P ys"
  proof (rule Cons.IH)
    fix i
    assume "i < length xs"
    then show "P (xs ! i) = P (ys ! i) \<and> (P (ys ! i) \<longrightarrow> xs ! i = ys ! i)"
      using Cons.prems [of "Suc i"] by simp
  qed
  with h show ?case by auto
qed


lemma enumerate1_props:
  "map snd (enumerate1 ps) = ps \<and> (\<forall>z\<in>set (enumerate1 ps). snd z \<in> set ps)"
proof -
  have "map snd (enumerate1 ps) = ps"
    by (simp add: enumerate1_def del: upt_Suc)
  then have "set ps = snd ` set (enumerate1 ps)"
    by (metis list.set_map)
  then show ?thesis
    using \<open>map snd (enumerate1 ps) = ps\<close> by blast
qed


lemma copy_all_copied:
  "\<forall>x\<in>set xs. \<not> isl (cp x) \<Longrightarrow> copy_all cp xs = Inr (map (\<lambda>x. projr (cp x)) xs)"
  by (induction xs) (auto split: sum.splits)


text \<open>The children of the root that the loop of a run leaves.\<close>

lemma run_loop:
  fixes l :: "('f::linorder) lib"
  defines "cs' \<equiv> \<lambda>r. fold (\<lambda>(idx, pos) cs. cs[pos := annotate l idx (children r ! pos)])
                      (enumerate1 (track_positions r)) (children r)"
  shows "length (cs' r) = length (children r) \<and>
     (\<forall>(idx, pos)\<in>set (enumerate1 (track_positions r)).
        cs' r ! pos = annotate l idx (children r ! pos)) \<and>
     (\<forall>pos<length (children r).
        tag (children r ! pos) \<noteq> qname GPX_NS ''trk'' \<longrightarrow> cs' r ! pos = children r ! pos)"
proof (intro conjI)
  let ?ps = "track_positions r"
  have d: "distinct ?ps" and b: "\<forall>p\<in>set ?ps. p < length (children r)"
    using track_positions_props [of r] by blast+
  show "length (cs' r) = length (children r)"
    unfolding cs'_def by (rule fold_update_length)
  show "\<forall>(idx, pos)\<in>set (enumerate1 ?ps). cs' r ! pos = annotate l idx (children r ! pos)"
  proof (clarify)
    fix idx pos
    assume m: "(idx, pos) \<in> set (enumerate1 ?ps)"
    have dz: "distinct (map snd (enumerate1 ?ps))"
      using d enumerate1_props [of ?ps] by simp
    have "pos < length (children r)"
      using m b enumerate1_props [of ?ps] by force
    with dz m show "cs' r ! pos = annotate l idx (children r ! pos)"
      unfolding cs'_def
      by (rule fold_update_at [where g = "\<lambda>idx pos. annotate l idx (children r ! pos)"])
  qed
  show "\<forall>pos<length (children r).
        tag (children r ! pos) \<noteq> qname GPX_NS ''trk'' \<longrightarrow> cs' r ! pos = children r ! pos"
  proof (intro allI impI)
    fix pos
    assume "pos < length (children r)" and "tag (children r ! pos) \<noteq> qname GPX_NS ''trk''"
    then have "pos \<notin> set ?ps"
      using track_positions_props [of r] by blast
    then have "pos \<notin> snd ` set (enumerate1 ?ps)"
      using enumerate1_props [of ?ps] by auto
    then show "cs' r ! pos = children r ! pos"
      unfolding cs'_def by (rule fold_update_other)
  qed
qed

text \<open>The waypoints of the root are the same elements after the loop.\<close>

lemma run_loop_waypoints:
  fixes l :: "('f::linorder) lib"
  shows "findall_children (qname GPX_NS ''wpt'')
       (set_children
          (fold (\<lambda>(idx, pos) cs. cs[pos := annotate l idx (children r ! pos)])
             (enumerate1 (track_positions r)) (children r)) r) =
     findall_children (qname GPX_NS ''wpt'') r"
proof -
  let ?zs = "enumerate1 (track_positions r)"
  let ?cs = "fold (\<lambda>(idx, pos) cs. cs[pos := annotate l idx (children r ! pos)])
               ?zs (children r)"
  note loop = run_loop [of l r]
  have len: "length ?cs = length (children r)"
    and trk: "\<forall>(idx, pos)\<in>set ?zs. ?cs ! pos = annotate l idx (children r ! pos)"
    and oth: "\<forall>pos<length (children r).
        tag (children r ! pos) \<noteq> qname GPX_NS ''trk'' \<longrightarrow> ?cs ! pos = children r ! pos"
    using loop by blast+
  have tags: "tag (?cs ! i) = tag (children r ! i)" if "i < length ?cs" for i
  proof (cases "tag (children r ! i) = qname GPX_NS ''trk''")
    case True
    then have "i \<in> set (track_positions r)"
      using that len track_positions_props [of r] by simp
    then obtain idx where "(idx, i) \<in> set ?zs"
      using enumerate1_props [of "track_positions r"]
      by (metis (no_types, lifting) imageE list.set_map prod.collapse)
    with trk show ?thesis by force
  next
    case False
    with oth that len show ?thesis by simp
  qed
  show ?thesis
    unfolding findall_children_def children_set_children
  proof (rule filter_eq_nth [OF len])
    fix i
    assume i: "i < length ?cs"
    have "?cs ! i = children r ! i"
      if "tag (children r ! i) = qname GPX_NS ''wpt''"
    proof -
      from that have "tag (children r ! i) \<noteq> qname GPX_NS ''trk''"
        by (simp add: qname_def)
      with oth i len show ?thesis by simp
    qed
    with tags [OF i]
    show "(tag (?cs ! i) = qname GPX_NS ''wpt'') = (tag (children r ! i) = qname GPX_NS ''wpt'') \<and>
          (tag (children r ! i) = qname GPX_NS ''wpt'' \<longrightarrow> ?cs ! i = children r ! i)"
      by simp
  qed
qed

text \<open>
  A run returns when every copy succeeds, and the first copy that raises ends it: the
  exception leaves the function, the track just annotated stays annotated in the tree,
  and its file is not written.
\<close>

lemma split_gpx_returns_when_copied:
  fixes l :: "('f::linorder) lib"
  assumes "\<forall>(idx, pos)\<in>set (enumerate1 (track_positions root_elem)).
             \<not> isl (lib_copy l (annotate l idx (children root_elem ! pos)))"
    and "\<forall>wp\<in>set (findall_children (qname GPX_NS ''wpt'') root_elem). \<not> isl (lib_copy l wp)"
  shows "\<exists>w' root'. split_gpx l input_gpx_path (Inr root_elem) w = Returned (w', Some root')"
proof -
  let ?folder = "target_folder_of l input_gpx_path"
  let ?zs = "enumerate1 (track_positions root_elem)"
  let ?wpts = "findall_children (qname GPX_NS ''wpt'') root_elem"
  have ca: "copy_all (lib_copy l) ?wpts = Inr (map (\<lambda>x. projr (lib_copy l x)) ?wpts)"
    using assms(2) by (rule copy_all_copied)
  show ?thesis
  proof (cases "track_positions root_elem = []")
    case True
    then show ?thesis
      using ca by (simp add: split_gpx_def Let_def write_all_waypoints_def del: decimal.simps)
  next
    case False
    have "distinct (map snd ?zs)"
      using track_positions_props [of root_elem] enumerate1_props [of "track_positions root_elem"]
      by simp
    from track_loop_all_copied
      [where l = l and r = root_elem and zs = ?zs and folder = ?folder
         and w = "makedirs ?folder w", OF assms(1) this]
    obtain st where st: "track_loop l ?folder ?zs (root_elem, makedirs ?folder w) = Returned st"
      by blast
    obtain r1 w1 where p: "st = (r1, w1)" by (cases st)
    have d: "distinct (track_positions root_elem)"
      and b: "\<forall>p\<in>set (track_positions root_elem). p < length (children root_elem)"
      using track_positions_props [of root_elem] by blast+
    note tl = track_loop_returned [OF d b st [unfolded enumerate1_zip], folded enumerate1_zip]
    have "fst st = set_children
        (fold (\<lambda>(idx, pos) cs. cs[pos := annotate l idx (children root_elem ! pos)])
           ?zs (children root_elem)) root_elem"
      using tl by simp
    then have "findall_children (qname GPX_NS ''wpt'') (fst st) = ?wpts"
      by (simp only: run_loop_waypoints)
    then have wp: "findall_children (qname GPX_NS ''wpt'') r1 = ?wpts"
      unfolding p fst_conv .
    have lp: "track_loop l ?folder ?zs (root_elem, makedirs ?folder w) = Returned (r1, w1)"
      using st p by simp
    have "\<exists>w3. write_all_waypoints l r1 ?folder
        (print (decimal (length (track_positions root_elem)) @
                '' deelroutes zijn succesvol gesplitst en opgeslagen in: '' @ ?folder) w1) =
        Returned w3"
      unfolding write_all_waypoints_def Let_def wp ca by (simp del: decimal.simps)
    then obtain w3 where w3: "write_all_waypoints l r1 ?folder
        (print (decimal (length (track_positions root_elem)) @
                '' deelroutes zijn succesvol gesplitst en opgeslagen in: '' @ ?folder) w1) =
        Returned w3"
      by (rule exE)
    have "split_gpx l input_gpx_path (Inr root_elem) w = Returned (w3, Some r1)"
      unfolding split_gpx_def Let_def sum.case
      by (simp only: False if_False lp outcome.case prod.case w3)
    then show ?thesis by blast
  qed
qed

lemma split_gpx_first_copy_raises:
  fixes l :: "('f::linorder) lib"
  assumes "track_positions root_elem = p # ps"
    and "lib_copy l (annotate l 1 (children root_elem ! p)) = Inl e"
  shows "split_gpx l input_gpx_path (Inr root_elem) w =
     Uncaught e
       (makedirs (target_folder_of l input_gpx_path) w,
        Some (set_children ((children root_elem)[p := annotate l 1 (children root_elem ! p)])
                root_elem))"
proof -
  have "enumerate1 (p # ps) = (Suc 0, p) # zip [Suc (Suc 0)..<Suc (Suc (length ps))] ps"
    using upt_conv_Cons [of "Suc 0" "Suc (Suc (length ps))"]
    by (simp add: enumerate1_def del: upt_Suc)
  then show ?thesis
    using assms by (simp add: split_gpx_def Let_def split_track_eq)
qed




text \<open>
  The annotation keeps the tail of a track, and the copy of \<open>sample_lib\<close> raises on a
  tail that is not blank: a document whose first track is followed by such text ends the
  run with the exception, after the folder was made and the track annotated, and before
  any file is written.
\<close>

lemma elem_tail_annotate: "elem_tail (annotate l idx t) = elem_tail t"
  by (simp add: annotate_def Let_def add_bounds_def add_standard_display_color_def
      add_or_update_gpxt_display_color_def append_child_def update_child_def insert_first_def
      set_children_def split: option.splits prod.splits)

lemma split_gpx_sample_copy_raises:
  assumes "track_positions root_elem = p # ps" and "\<not> blank_tail (children root_elem ! p)"
  shows "split_gpx sample_lib input_gpx_path (Inr root_elem) w =
     Uncaught (ParseError ''junk after document element'')
       (makedirs (target_folder_of sample_lib input_gpx_path) w,
        Some (set_children
                ((children root_elem)[p := annotate sample_lib 1 (children root_elem ! p)])
                root_elem))"
proof -
  have "\<not> blank_tail (annotate sample_lib 1 (children root_elem ! p))"
    using assms(2) by (simp add: blank_tail_def elem_tail_annotate)
  then have "lib_copy sample_lib (annotate sample_lib 1 (children root_elem ! p)) =
      Inl (ParseError ''junk after document element'')"
    by (simp add: sample_lib_def sample_copy_def)
  with assms(1) show ?thesis
    by (rule split_gpx_first_copy_raises)
qed




end
